theory Spec2Isabelle
  imports Main "HOL-Library.Word" "HOL-Library.Char_ord" "HOL-Library.List_Lexorder"
begin

section \<open>Values of the JavaScript platform\<close>

text \<open>
  The two services under \<^verbatim>\<open>src/src/services\<close> (\<^verbatim>\<open>reliabilityService.ts\<close> and
  \<^verbatim>\<open>performanceService.ts\<close>) are embedded as state-passing functions. A thrown
  exception or a rejected promise is the left injection of a sum; \<^verbatim>\<open>null\<close> and
  \<^verbatim>\<open>undefined\<close> are \<open>None\<close>. Strings are byte strings (UTF-8), numbers that
  the code only counts or reads from the clock are naturals. Console output is not
  part of the model.
\<close>

datatype error =
  Error string
| TypeError string
| SyntaxError string
| DOMException string

datatype json =
  JNull
| JBool bool
| JNum int
| JStr string
| JArr "json list"
| JObj "(string \<times> json) list"

text \<open>
  What the code takes from the platform without defining it: the SHA-256 digest of
  \<^verbatim>\<open>crypto.subtle\<close> (which may reject) and the JSON serialiser and parser
  (\<^verbatim>\<open>JSON.parse\<close> throws a \<^verbatim>\<open>SyntaxError\<close> on malformed text).
\<close>

record platform =
  subtle_digest :: "8 word list \<Rightarrow> error + 8 word list"
  JSON_stringify :: "json \<Rightarrow> string"
  JSON_parse :: "string \<Rightarrow> error + json"

text \<open>
  Requests to the durable stores can fail (quota, I/O). Which ones fail during a call is
  an input of the model: a function from the request to the error it raises, if any.
\<close>

datatype io_request =
  BackupsPut string
| BackupsGetAll
| BackupsDelete string
| FilesPut string
| LocalStorageSetItem string

type_synonym faults = "io_request \<Rightarrow> error option"

subsection \<open>Truthiness, property access and number formatting\<close>

fun truthy :: "json \<Rightarrow> bool" where
  "truthy JNull = False"
| "truthy (JBool b) = b"
| "truthy (JNum n) = (n \<noteq> 0)"
| "truthy (JStr s) = (s \<noteq> [])"
| "truthy (JArr xs) = True"
| "truthy (JObj kvs) = True"

fun typeof_is_object :: "json \<Rightarrow> bool" where
  "typeof_is_object JNull = True"
| "typeof_is_object (JArr xs) = True"
| "typeof_is_object (JObj kvs) = True"
| "typeof_is_object v = False"

fun get_property :: "json \<Rightarrow> string \<Rightarrow> json option" where
  "get_property (JObj kvs) k = map_of kvs k"
| "get_property v k = None"

fun Array_isArray :: "json \<Rightarrow> bool" where
  "Array_isArray (JArr xs) = True"
| "Array_isArray v = False"

definition digit_char :: "nat \<Rightarrow> char" where
  "digit_char d = ''0123456789abcdef'' ! d"

text \<open>\<^verbatim>\<open>n.toString(radix)\<close> for a non-negative integer and a radix from 2 to 16.\<close>

fun toString_radix :: "nat \<Rightarrow> nat \<Rightarrow> string" where
  "toString_radix r n =
     (if n < r \<or> r < 2 then [digit_char n]
      else toString_radix r (n div r) @ [digit_char (n mod r)])"

declare toString_radix.simps [simp del]

definition padStart :: "nat \<Rightarrow> char \<Rightarrow> string \<Rightarrow> string" where
  "padStart n c s = replicate (n - length s) c @ s"

definition TextEncoder_encode :: "string \<Rightarrow> 8 word list" where
  "TextEncoder_encode s = map of_char s"

section \<open>The reliability service\<close>

record BackupData =
  id' :: string
  content :: string
  timestamp :: nat
  version :: nat
  checksum :: string

record RecoveryState =
  lastSaved :: nat
  unsavedChanges :: bool
  backupCount :: nat
  crashDetected :: bool

record ReliabilityService =
  backupInterval :: nat
  maxBackups :: nat
  backupTimer :: "nat option"
  recoveryState :: RecoveryState

record FileRecord =
  file_content :: string
  file_timestamp :: nat
  synced :: bool

text \<open>
  The browser state the services act on: \<^verbatim>\<open>localStorage\<close>; the object store
  \<^verbatim>\<open>backups\<close> of the database \<^verbatim>\<open>CodeBuddyBackups\<close>, as \<^verbatim>\<open>getAll\<close> lists it
  (ascending by the key \<^verbatim>\<open>id\<close>, one record per key); the object store \<^verbatim>\<open>files\<close>
  of \<^verbatim>\<open>CodeBuddyDB\<close>; the handles of the running interval timers and the next
  handle \<^verbatim>\<open>setInterval\<close> returns.
\<close>

record browser =
  localStorage :: "string \<rightharpoonup> string"
  backups :: "BackupData list"
  files :: "string \<rightharpoonup> FileRecord"
  intervals :: "nat set"
  next_handle :: nat

definition wf_store :: "BackupData list \<Rightarrow> bool" where
  "wf_store db = sorted_wrt (<) (map id' db)"

definition initial_service :: ReliabilityService where
  "initial_service =
     \<lparr>backupInterval = 30000, maxBackups = 10, backupTimer = None,
      recoveryState =
        \<lparr>lastSaved = 0, unsavedChanges = False, backupCount = 0, crashDetected = False\<rparr>\<rparr>"

subsection \<open>Checksums\<close>

definition generateChecksum :: "platform \<Rightarrow> string \<Rightarrow> error + string" where
  "generateChecksum P data =
     (case subtle_digest P (TextEncoder_encode data) of
        Inl e \<Rightarrow> Inl e
      | Inr hashArray \<Rightarrow>
          Inr (concat (map (\<lambda>b. padStart 2 (CHR ''0'') (toString_radix 16 (unat b))) hashArray)))"

definition verifyBackup :: "platform \<Rightarrow> BackupData \<Rightarrow> bool" where
  "verifyBackup P backup =
     (case generateChecksum P (content backup) of
        Inl e \<Rightarrow> False
      | Inr calculatedChecksum \<Rightarrow> calculatedChecksum = checksum backup)"

definition validateRecoveredData :: "json \<Rightarrow> bool" where
  "validateRecoveredData data =
     (truthy data \<and> typeof_is_object data \<and>
      (case get_property data ''files'' of
         None \<Rightarrow> False
       | Some fs \<Rightarrow> truthy fs \<and> Array_isArray fs))"

subsection \<open>The object store of backups\<close>

text \<open>
  \<^verbatim>\<open>store.put\<close> replaces the record that has the same key and keeps the store in
  key order; a failed transaction leaves the store as it was.

  Every request is modelled as settled: it resolves or it rejects. In the code the
  promise of a request can also stay pending for ever, where no handler is installed
  for what happens: an exception inside \<^verbatim>\<open>onsuccess\<close> when the database has no
  object store \<^verbatim>\<open>backups\<close> (only \<^verbatim>\<open>storeBackup\<close> creates it), an aborted
  transaction, a failed \<^verbatim>\<open>open\<close> in \<^verbatim>\<open>deleteBackup\<close>. Such a call never returns
  and changes no state; it is not an outcome of the functions below, so what is proved
  of a call is proved of a call that settles.
\<close>

definition store_put :: "BackupData \<Rightarrow> BackupData list \<Rightarrow> BackupData list" where
  "store_put b db = insort_key id' b (filter (\<lambda>x. id' x \<noteq> id' b) db)"

definition storeBackup :: "faults \<Rightarrow> BackupData \<Rightarrow> browser \<Rightarrow> (error + unit) \<times> browser" where
  "storeBackup F backup br =
     (case F (BackupsPut (id' backup)) of
        Some e \<Rightarrow> (Inl e, br)
      | None \<Rightarrow> (Inr (), br\<lparr>backups := store_put backup (backups br)\<rparr>))"

definition getBackups :: "faults \<Rightarrow> browser \<Rightarrow> error + BackupData list" where
  "getBackups F br =
     (case F BackupsGetAll of
        Some e \<Rightarrow> Inl e
      | None \<Rightarrow> Inr (backups br))"

definition deleteBackup :: "faults \<Rightarrow> string \<Rightarrow> browser \<Rightarrow> (error + unit) \<times> browser" where
  "deleteBackup F backupId br =
     (case F (BackupsDelete backupId) of
        Some e \<Rightarrow> (Inl e, br)
      | None \<Rightarrow> (Inr (), br\<lparr>backups := filter (\<lambda>x. id' x \<noteq> backupId) (backups br)\<rparr>))"

text \<open>
  \<^verbatim>\<open>backups.sort((a, b) => b.timestamp - a.timestamp)\<close>: a stable sort, newest first.
\<close>

definition sort_newest_first :: "BackupData list \<Rightarrow> BackupData list" where
  "sort_newest_first bs = sort_key (\<lambda>b. - int (timestamp b)) bs"

text \<open>The \<^verbatim>\<open>for\<close> loop of \<^verbatim>\<open>cleanOldBackups\<close>; an error leaves the loop.\<close>

fun delete_each :: "faults \<Rightarrow> BackupData list \<Rightarrow> browser \<Rightarrow> (error + unit) \<times> browser" where
  "delete_each F [] br = (Inr (), br)"
| "delete_each F (backup # rest) br =
     (case deleteBackup F (id' backup) br of
        (Inl e, br1) \<Rightarrow> (Inl e, br1)
      | (Inr u, br1) \<Rightarrow> delete_each F rest br1)"

text \<open>Every error inside \<^verbatim>\<open>cleanOldBackups\<close> is caught and logged.\<close>

definition cleanOldBackups :: "faults \<Rightarrow> ReliabilityService \<Rightarrow> browser \<Rightarrow> browser" where
  "cleanOldBackups F svc br =
     (case getBackups F br of
        Inl e \<Rightarrow> br
      | Inr bs \<Rightarrow>
          if length bs \<le> maxBackups svc then br
          else
            let sortedBackups = sort_newest_first bs;
                backupsToDelete = drop (maxBackups svc) sortedBackups
            in snd (delete_each F backupsToDelete br))"

subsection \<open>Local storage\<close>

definition getItem :: "string \<Rightarrow> browser \<Rightarrow> string option" where
  "getItem k br = localStorage br k"

definition setItem :: "faults \<Rightarrow> string \<Rightarrow> string \<Rightarrow> browser \<Rightarrow> (error + unit) \<times> browser" where
  "setItem F k v br =
     (case F (LocalStorageSetItem k) of
        Some e \<Rightarrow> (Inl e, br)
      | None \<Rightarrow> (Inr (), br\<lparr>localStorage := (localStorage br)(k \<mapsto> v)\<rparr>))"

definition removeItem :: "string \<Rightarrow> browser \<Rightarrow> browser" where
  "removeItem k br = br\<lparr>localStorage := (localStorage br)(k := None)\<rparr>"

text \<open>A string read from local storage is truthy when it is present and not empty.\<close>

definition item_truthy :: "string option \<Rightarrow> bool" where
  "item_truthy v = (case v of None \<Rightarrow> False | Some s \<Rightarrow> s \<noteq> [])"

definition RecoveryState_json :: "RecoveryState \<Rightarrow> json" where
  "RecoveryState_json rs =
     JObj [(''lastSaved'', JNum (int (lastSaved rs))),
           (''unsavedChanges'', JBool (unsavedChanges rs)),
           (''backupCount'', JNum (int (backupCount rs))),
           (''crashDetected'', JBool (crashDetected rs))]"

definition updateRecoveryState ::
  "platform \<Rightarrow> faults \<Rightarrow> ReliabilityService \<Rightarrow> browser \<Rightarrow> (error + unit) \<times> browser" where
  "updateRecoveryState P F svc br =
     setItem F ''codebuddy_recovery_state''
       (JSON_stringify P (RecoveryState_json (recoveryState svc))) br"

definition markUnsavedChanges ::
  "platform \<Rightarrow> faults \<Rightarrow> ReliabilityService \<Rightarrow> browser
     \<Rightarrow> (error + unit) \<times> ReliabilityService \<times> browser" where
  "markUnsavedChanges P F svc br =
     (let svc1 = svc\<lparr>recoveryState := (recoveryState svc)\<lparr>unsavedChanges := True\<rparr>\<rparr>
      in case updateRecoveryState P F svc1 br of (r, br1) \<Rightarrow> (r, svc1, br1))"

subsection \<open>Crash flag\<close>

text \<open>
  \<^verbatim>\<open>initializeRecovery\<close> reads the flag, records a crash when it is set and sets the
  flag for the running session. The call of \<^verbatim>\<open>recoverFromCrash\<close> it starts is not
  awaited: it reads the store and its result is dropped, so it leaves no trace in
  local storage or in the service (on a browser that has no database yet, opening it
  creates one without the object store, which is outside the state modelled here). The
  \<^verbatim>\<open>beforeunload\<close> listener it registers removes the flag.
\<close>

definition initializeRecovery ::
  "faults \<Rightarrow> ReliabilityService \<Rightarrow> browser \<Rightarrow> (error + unit) \<times> ReliabilityService \<times> browser" where
  "initializeRecovery F svc br =
     (let crashFlag = getItem ''codebuddy_crash_flag'' br;
          svc1 = (if item_truthy crashFlag
                  then svc\<lparr>recoveryState := (recoveryState svc)\<lparr>crashDetected := True\<rparr>\<rparr>
                  else svc)
      in case setItem F ''codebuddy_crash_flag'' ''true'' br of
           (r, br1) \<Rightarrow> (r, svc1, br1))"

definition beforeunload_listener :: "browser \<Rightarrow> browser" where
  "beforeunload_listener br = removeItem ''codebuddy_crash_flag'' br"

text \<open>The constructor: the field initialisers, then \<^verbatim>\<open>initializeRecovery\<close>.\<close>

definition new_ReliabilityService ::
  "faults \<Rightarrow> browser \<Rightarrow> (error + unit) \<times> ReliabilityService \<times> browser" where
  "new_ReliabilityService F br = initializeRecovery F initial_service br"

definition isCrashRecoveryAvailable :: "ReliabilityService \<Rightarrow> bool" where
  "isCrashRecoveryAvailable svc = crashDetected (recoveryState svc)"

subsection \<open>The auto-backup timer\<close>

text \<open>
  \<^verbatim>\<open>if (this.backupTimer)\<close> tests the handle for truthiness: \<^verbatim>\<open>null\<close> and the
  number 0 are falsy.
\<close>

definition stopAutoBackup :: "ReliabilityService \<Rightarrow> browser \<Rightarrow> ReliabilityService \<times> browser" where
  "stopAutoBackup svc br =
     (case backupTimer svc of
        None \<Rightarrow> (svc, br)
      | Some h \<Rightarrow>
          if h = 0 then (svc, br)
          else (svc\<lparr>backupTimer := None\<rparr>, br\<lparr>intervals := intervals br - {h}\<rparr>))"

definition startAutoBackup :: "ReliabilityService \<Rightarrow> browser \<Rightarrow> ReliabilityService \<times> browser" where
  "startAutoBackup svc br =
     (case stopAutoBackup svc br of
        (svc1, br1) \<Rightarrow>
          let h = next_handle br1
          in (svc1\<lparr>backupTimer := Some h\<rparr>,
              br1\<lparr>intervals := insert h (intervals br1), next_handle := Suc h\<rparr>))"

definition cleanup :: "ReliabilityService \<Rightarrow> browser \<Rightarrow> ReliabilityService \<times> browser" where
  "cleanup svc br =
     (case stopAutoBackup svc br of
        (svc1, br1) \<Rightarrow>
          (svc1, removeItem ''codebuddy_recovery_state'' (removeItem ''codebuddy_crash_flag'' br1)))"

subsection \<open>Creating a backup\<close>

text \<open>
  The object literal of \<^verbatim>\<open>createBackup\<close>. \<open>t1\<close> and \<open>t2\<close> are the two readings of
  \<^verbatim>\<open>Date.now()\<close>, for the id and for the timestamp.
\<close>

definition createBackup_object ::
  "platform \<Rightarrow> nat \<Rightarrow> nat \<Rightarrow> json \<Rightarrow> ReliabilityService \<Rightarrow> error + BackupData" where
  "createBackup_object P t1 t2 data svc =
     (case generateChecksum P (JSON_stringify P data) of
        Inl e \<Rightarrow> Inl e
      | Inr c \<Rightarrow>
          Inr \<lparr>id' = ''backup_'' @ toString_radix 10 t1,
               content = JSON_stringify P data,
               timestamp = t2,
               version = backupCount (recoveryState svc) + 1,
               checksum = c\<rparr>)"

definition createBackup ::
  "platform \<Rightarrow> faults \<Rightarrow> nat \<Rightarrow> nat \<Rightarrow> json \<Rightarrow> ReliabilityService \<Rightarrow> browser
     \<Rightarrow> (error + unit) \<times> ReliabilityService \<times> browser" where
  "createBackup P F t1 t2 data svc br =
     (case createBackup_object P t1 t2 data svc of
        Inl e \<Rightarrow> (Inl e, svc, br)
      | Inr backup \<Rightarrow>
          (case storeBackup F backup br of
             (Inl e, br1) \<Rightarrow> (Inl e, svc, br1)
           | (Inr u, br1) \<Rightarrow>
               let svc1 = svc\<lparr>recoveryState :=
                            (recoveryState svc)\<lparr>backupCount := backupCount (recoveryState svc) + 1\<rparr>\<rparr>
               in (case updateRecoveryState P F svc1 br1 of
                     (Inl e, br2) \<Rightarrow> (Inl e, svc1, br2)
                   | (Inr u, br2) \<Rightarrow> (Inr (), svc1, cleanOldBackups F svc1 br2))))"

text \<open>
  The callback of the interval timer. \<open>data\<close> is what \<^verbatim>\<open>getDataCallback()\<close> returns,
  \<open>t3\<close> the reading of the clock after the backup. A failed backup is logged and the
  two assignments are skipped.
\<close>

definition autoBackup_callback ::
  "platform \<Rightarrow> faults \<Rightarrow> nat \<Rightarrow> nat \<Rightarrow> nat \<Rightarrow> json \<Rightarrow> ReliabilityService \<Rightarrow> browser
     \<Rightarrow> ReliabilityService \<times> browser" where
  "autoBackup_callback P F t1 t2 t3 data svc br =
     (case createBackup P F t1 t2 data svc br of
        (Inl e, svc1, br1) \<Rightarrow> (svc1, br1)
      | (Inr u, svc1, br1) \<Rightarrow>
          (svc1\<lparr>recoveryState := (recoveryState svc1)\<lparr>lastSaved := t3, unsavedChanges := False\<rparr>\<rparr>,
           br1))"

text \<open>A timer runs its callback only while its handle is among the running intervals.\<close>

definition interval_fires ::
  "nat \<Rightarrow> platform \<Rightarrow> faults \<Rightarrow> nat \<Rightarrow> nat \<Rightarrow> nat \<Rightarrow> json \<Rightarrow> ReliabilityService \<Rightarrow> browser
     \<Rightarrow> ReliabilityService \<times> browser" where
  "interval_fires h P F t1 t2 t3 data svc br =
     (if h \<in> intervals br then autoBackup_callback P F t1 t2 t3 data svc br else (svc, br))"

subsection \<open>Recovery\<close>

text \<open>
  \<^verbatim>\<open>recoverFromBackup\<close> takes \<^verbatim>\<open>backups[1]\<close> as it is: \<open>None\<close> is
  \<^verbatim>\<open>undefined\<close>, whose \<^verbatim>\<open>content\<close> cannot be read.
\<close>

definition recoverFromBackup :: "platform \<Rightarrow> BackupData option \<Rightarrow> error + json option" where
  "recoverFromBackup P backup =
     (case backup of
        None \<Rightarrow> Inl (TypeError ''Cannot read properties of undefined'')
      | Some b \<Rightarrow>
          (case JSON_parse P (content b) of
             Inl e \<Rightarrow> Inl e
           | Inr data \<Rightarrow>
               if \<not> validateRecoveredData data
               then Inl (Error ''Recovered data validation failed'')
               else Inr (Some data)))"

definition nth_opt :: "'a list \<Rightarrow> nat \<Rightarrow> 'a option" where
  "nth_opt xs i = (if i < length xs then Some (xs ! i) else None)"

text \<open>
  \<^verbatim>\<open>recoverFromCrash\<close> returns the promise of \<^verbatim>\<open>recoverFromBackup\<close> without
  awaiting it, so its own \<^verbatim>\<open>catch\<close> covers \<^verbatim>\<open>getBackups\<close> only and a rejection
  of \<^verbatim>\<open>recoverFromBackup\<close> reaches the caller. \<open>Inr None\<close> is the result \<^verbatim>\<open>null\<close>.
\<close>

definition recoverFromCrash :: "platform \<Rightarrow> faults \<Rightarrow> browser \<Rightarrow> error + json option" where
  "recoverFromCrash P F br =
     (case getBackups F br of
        Inl e \<Rightarrow> Inr None
      | Inr bs \<Rightarrow>
          if length bs = 0 then Inr None
          else
            let sorted = sort_newest_first bs;
                latestBackup = sorted ! 0
            in if \<not> verifyBackup P latestBackup
               then recoverFromBackup P (nth_opt sorted 1)
               else recoverFromBackup P (Some latestBackup))"

definition triggerRecovery :: "platform \<Rightarrow> faults \<Rightarrow> browser \<Rightarrow> error + json option" where
  "triggerRecovery P F br = recoverFromCrash P F br"

subsection \<open>Calls of the timer interface\<close>

text \<open>
  What can happen to the timer of a service instance, in any order: a call of
  \<^verbatim>\<open>startAutoBackup\<close>, a call of \<^verbatim>\<open>stopAutoBackup\<close>, and the browser firing the
  interval of some handle (with the inputs of the callback).
\<close>

datatype timer_call =
  Start
| Stop
| Fire nat platform faults nat nat nat json

fun timer_step ::
  "timer_call \<Rightarrow> ReliabilityService \<times> browser \<Rightarrow> ReliabilityService \<times> browser" where
  "timer_step Start (svc, br) = startAutoBackup svc br"
| "timer_step Stop (svc, br) = stopAutoBackup svc br"
| "timer_step (Fire h P F t1 t2 t3 data) (svc, br) = interval_fires h P F t1 t2 t3 data svc br"

definition run_timer_calls ::
  "timer_call list \<Rightarrow> ReliabilityService \<times> browser \<Rightarrow> ReliabilityService \<times> browser" where
  "run_timer_calls calls s = fold timer_step calls s"

text \<open>
  The handles of the browser: \<^verbatim>\<open>setInterval\<close> returns a positive number that is not
  the handle of a running timer.
\<close>

definition handles_fresh :: "browser \<Rightarrow> bool" where
  "handles_fresh br = (0 < next_handle br \<and> (\<forall>h\<in>intervals br. h < next_handle br))"

text \<open>
  The invariant of the timer: besides the timers \<open>others\<close> that were running before
  the service started any, the running timers are the one in \<^verbatim>\<open>backupTimer\<close>, if any.
\<close>

definition timer_inv :: "nat set \<Rightarrow> ReliabilityService \<Rightarrow> browser \<Rightarrow> bool" where
  "timer_inv others svc br =
     (handles_fresh br
      \<and> intervals br = others \<union> set_option (backupTimer svc)
      \<and> (\<forall>h\<in>set_option (backupTimer svc). h \<notin> others \<and> h \<noteq> 0))"

subsection \<open>A session\<close>




section \<open>The performance service\<close>

record 'v CacheItem =
  value' :: 'v
  expires :: int

record 'v PerformanceService =
  cache :: "string \<rightharpoonup> 'v CacheItem"
  cacheHits :: nat
  cacheMisses :: nat

subsection \<open>The cache\<close>

text \<open>\<open>now\<close> is the reading of \<^verbatim>\<open>Date.now()\<close>; a stored item is an object, so truthy.\<close>

definition setCache ::
  "nat \<Rightarrow> string \<Rightarrow> 'v \<Rightarrow> int \<Rightarrow> 'v PerformanceService \<Rightarrow> 'v PerformanceService" where
  "setCache now key v ttl s =
     s\<lparr>cache := (cache s)(key \<mapsto> \<lparr>value' = v, expires = int now + ttl\<rparr>)\<rparr>"

text \<open>The call without a TTL takes the default of five minutes.\<close>

definition setCache_default ::
  "nat \<Rightarrow> string \<Rightarrow> 'v \<Rightarrow> 'v PerformanceService \<Rightarrow> 'v PerformanceService" where
  "setCache_default now key v s = setCache now key v 300000 s"

definition getCache ::
  "nat \<Rightarrow> string \<Rightarrow> 'v PerformanceService \<Rightarrow> 'v option \<times> 'v PerformanceService" where
  "getCache now key s =
     (case cache s key of
        None \<Rightarrow> (None, s\<lparr>cacheMisses := cacheMisses s + 1\<rparr>)
      | Some item \<Rightarrow>
          if int now > expires item
          then (None, s\<lparr>cache := (cache s)(key := None), cacheMisses := cacheMisses s + 1\<rparr>)
          else (Some (value' item), s\<lparr>cacheHits := cacheHits s + 1\<rparr>))"

subsection \<open>Saving and syncing\<close>

definition saveToIndexedDB ::
  "faults \<Rightarrow> string \<Rightarrow> string \<Rightarrow> nat \<Rightarrow> browser \<Rightarrow> (error + unit) \<times> browser" where
  "saveToIndexedDB F fileId c ts br =
     (case F (FilesPut fileId) of
        Some e \<Rightarrow> (Inl e, br)
      | None \<Rightarrow>
          (Inr (),
           br\<lparr>files := (files br)(fileId \<mapsto> \<lparr>file_content = c, file_timestamp = ts, synced = False\<rparr>)\<rparr>))"

text \<open>
  What one call of \<^verbatim>\<open>fetch\<close> does: it resolves with a response (its \<^verbatim>\<open>ok\<close> flag and
  status) or rejects. The network is an input of the model: the outcome of the
  \<open>k\<close>-th call, counted from 0.
\<close>

datatype fetch_result =
  Response bool nat
| Rejected error

definition sync_attempt :: "fetch_result \<Rightarrow> error + unit" where
  "sync_attempt r =
     (case r of
        Rejected e \<Rightarrow> Inl e
      | Response ok status \<Rightarrow>
          if \<not> ok then Inl (Error (''Sync failed: '' @ toString_radix 10 status))
          else Inr ())"

definition maxRetries :: nat where
  "maxRetries = 3"

text \<open>
  The \<^verbatim>\<open>while\<close> loop of \<^verbatim>\<open>syncToServer\<close>. The result carries the final value of
  \<^verbatim>\<open>retries\<close> (the failed attempts) and the delays waited between attempts, in
  milliseconds.
\<close>

function syncToServer_loop ::
  "(nat \<Rightarrow> fetch_result) \<Rightarrow> nat \<Rightarrow> nat list \<Rightarrow> (error + unit) \<times> nat \<times> nat list" where
  "syncToServer_loop net retries delays =
     (if retries < maxRetries then
        (case sync_attempt (net retries) of
           Inr u \<Rightarrow> (Inr (), retries, delays)
         | Inl e \<Rightarrow>
             if retries + 1 \<ge> maxRetries then (Inl e, retries + 1, delays)
             else syncToServer_loop net (retries + 1) (delays @ [2 ^ (retries + 1) * 1000]))
      else (Inr (), retries, delays))"
  by pat_completeness auto
termination
  by (relation "measure (\<lambda>(net, retries, delays). maxRetries - retries)") auto

declare syncToServer_loop.simps [simp del]

definition syncToServer :: "(nat \<Rightarrow> fetch_result) \<Rightarrow> (error + unit) \<times> nat \<times> nat list" where
  "syncToServer net = syncToServer_loop net 0 []"

text \<open>
  The fallback of \<^verbatim>\<open>autoSave\<close>: the write to local storage is itself inside a
  \<^verbatim>\<open>try\<close>, and its failure is only logged.
\<close>

definition handleAutoSaveError ::
  "platform \<Rightarrow> faults \<Rightarrow> nat \<Rightarrow> string \<Rightarrow> string \<Rightarrow> browser \<Rightarrow> browser" where
  "handleAutoSaveError P F now fileId c br =
     snd (setItem F (''backup_'' @ fileId)
            (JSON_stringify P (JObj [(''content'', JStr c), (''timestamp'', JNum (int now))])) br)"

text \<open>
  \<open>onLine\<close> is \<^verbatim>\<open>navigator.onLine\<close>, \<open>ts\<close> the clock at the start of the save, \<open>now\<close>
  the clock when the fallback runs.
\<close>

definition autoSave ::
  "platform \<Rightarrow> faults \<Rightarrow> (nat \<Rightarrow> fetch_result) \<Rightarrow> bool \<Rightarrow> nat \<Rightarrow> nat \<Rightarrow> string \<Rightarrow> string
     \<Rightarrow> browser \<Rightarrow> browser" where
  "autoSave P F net onLine ts now c fileId br =
     (case saveToIndexedDB F fileId c ts br of
        (Inl e, br1) \<Rightarrow> handleAutoSaveError P F now fileId c br1
      | (Inr u, br1) \<Rightarrow>
          if onLine then
            (case fst (syncToServer net) of
               Inl e \<Rightarrow> handleAutoSaveError P F now fileId c br1
             | Inr u \<Rightarrow> br1)
          else br1)"

section \<open>Example inputs\<close>

text \<open>
  Concrete inputs at which the theorems below are instantiated. The platform has a
  two-byte digest (the sum and the number of the bytes) and a serialiser and parser
  that know one document, an object with an empty \<^verbatim>\<open>files\<close> array, written
  \<^verbatim>\<open>{files:[]}\<close>; the parser rejects every other text.
\<close>

definition example_data :: json where
  "example_data = JObj [(''files'', JArr [])]"

definition example_platform :: platform where
  "example_platform =
     \<lparr>subtle_digest = (\<lambda>bs. Inr [sum_list bs, of_nat (length bs)]),
      JSON_stringify = (\<lambda>j. if j = example_data then ''{files:[]}'' else ''null''),
      JSON_parse = (\<lambda>s. if s = ''{files:[]}'' then Inr example_data
                         else Inl (SyntaxError ''Unexpected token''))\<rparr>"

definition no_faults :: faults where
  "no_faults r = None"

definition empty_browser :: browser where
  "empty_browser =
     \<lparr>localStorage = Map.empty, backups = [], files = Map.empty, intervals = {}, next_handle = 1\<rparr>"

text \<open>Ten snapshots of an earlier session, stamped 5000 to 5009.\<close>

definition example_ten_snapshots :: "BackupData list" where
  "example_ten_snapshots =
     [\<lparr>id' = ''backup_5000'', content = ''{files:[]}'', timestamp = 5000,
       version = 1, checksum = ''fd0a''\<rparr>,
      \<lparr>id' = ''backup_5001'', content = ''{files:[]}'', timestamp = 5001,
       version = 2, checksum = ''fd0a''\<rparr>,
      \<lparr>id' = ''backup_5002'', content = ''{files:[]}'', timestamp = 5002,
       version = 3, checksum = ''fd0a''\<rparr>,
      \<lparr>id' = ''backup_5003'', content = ''{files:[]}'', timestamp = 5003,
       version = 4, checksum = ''fd0a''\<rparr>,
      \<lparr>id' = ''backup_5004'', content = ''{files:[]}'', timestamp = 5004,
       version = 5, checksum = ''fd0a''\<rparr>,
      \<lparr>id' = ''backup_5005'', content = ''{files:[]}'', timestamp = 5005,
       version = 6, checksum = ''fd0a''\<rparr>,
      \<lparr>id' = ''backup_5006'', content = ''{files:[]}'', timestamp = 5006,
       version = 7, checksum = ''fd0a''\<rparr>,
      \<lparr>id' = ''backup_5007'', content = ''{files:[]}'', timestamp = 5007,
       version = 8, checksum = ''fd0a''\<rparr>,
      \<lparr>id' = ''backup_5008'', content = ''{files:[]}'', timestamp = 5008,
       version = 9, checksum = ''fd0a''\<rparr>,
      \<lparr>id' = ''backup_5009'', content = ''{files:[]}'', timestamp = 5009,
       version = 10, checksum = ''fd0a''\<rparr>]"

section \<open>Properties of the performance service\<close>

subsection \<open>The cache\<close>

text \<open>
  Claim C8. \<^verbatim>\<open>setCache\<close> stores the value with expiry \<open>now + ttl\<close> and leaves the
  counters alone. \<^verbatim>\<open>getCache\<close> on a stored item at a time not past its expiry returns
  the value and counts a hit; at a time strictly after the expiry it returns nothing,
  counts a miss and removes the item; on an absent key it returns nothing and counts a
  miss.
\<close>

theorem getCache_ttl:
  "cache (setCache now key v ttl s) key = Some \<lparr>value' = v, expires = int now + ttl\<rparr>
   \<and> cacheHits (setCache now key v ttl s) = cacheHits s
   \<and> cacheMisses (setCache now key v ttl s) = cacheMisses s
   \<and> (\<forall>item. cache s key = Some item \<and> int t \<le> expires item \<longrightarrow>
         getCache t key s = (Some (value' item), s\<lparr>cacheHits := cacheHits s + 1\<rparr>))
   \<and> (\<forall>item. cache s key = Some item \<and> expires item < int t \<longrightarrow>
         getCache t key s =
           (None, s\<lparr>cache := (cache s)(key := None), cacheMisses := cacheMisses s + 1\<rparr>))
   \<and> (cache s key = None \<longrightarrow>
         getCache t key s = (None, s\<lparr>cacheMisses := cacheMisses s + 1\<rparr>))"
  by (simp add: setCache_def getCache_def)

text \<open>
  The scenario of the specification: a value set at time 1000 with a TTL of 100 is read
  back at once, and is a miss 150 later; a key never set is a miss.
\<close>

theorem getCache_ttl_witness:
  "getCache 1000 ''k'' (setCache 1000 ''k'' (7::nat) 100 \<lparr>cache = Map.empty, cacheHits = 0, cacheMisses = 0\<rparr>)
     = (Some 7, \<lparr>cache = [''k'' \<mapsto> \<lparr>value' = 7, expires = 1100\<rparr>], cacheHits = 1, cacheMisses = 0\<rparr>)
   \<and> getCache 1150 ''k'' (setCache 1000 ''k'' (7::nat) 100 \<lparr>cache = Map.empty, cacheHits = 0, cacheMisses = 0\<rparr>)
     = (None, \<lparr>cache = Map.empty, cacheHits = 0, cacheMisses = 1\<rparr>)
   \<and> getCache 1000 ''k'' \<lparr>cache = (Map.empty :: string \<rightharpoonup> nat CacheItem), cacheHits = 0, cacheMisses = 0\<rparr>
     = (None, \<lparr>cache = Map.empty, cacheHits = 0, cacheMisses = 1\<rparr>)"
proof -
  let ?s0 = "\<lparr>cache = (Map.empty :: string \<rightharpoonup> nat CacheItem), cacheHits = 0, cacheMisses = 0\<rparr>"
  let ?s1 = "setCache 1000 ''k'' (7::nat) 100 ?s0"
  have s1: "?s1 = \<lparr>cache = [''k'' \<mapsto> \<lparr>value' = 7, expires = 1100\<rparr>], cacheHits = 0, cacheMisses = 0\<rparr>"
    by (simp add: setCache_def)
  from getCache_ttl [of 1000 "''k''" 7 100 ?s0 1000]
  have a: "cache ?s0 ''k'' = None \<longrightarrow> getCache 1000 ''k'' ?s0 = (None, ?s0\<lparr>cacheMisses := cacheMisses ?s0 + 1\<rparr>)"
    by blast
  from getCache_ttl [of 0 "''k''" 7 0 ?s1 1000]
  have b: "\<forall>item. cache ?s1 ''k'' = Some item \<and> int 1000 \<le> expires item \<longrightarrow>
         getCache 1000 ''k'' ?s1 = (Some (value' item), ?s1\<lparr>cacheHits := cacheHits ?s1 + 1\<rparr>)"
    by blast
  from getCache_ttl [of 0 "''k''" 7 0 ?s1 1150]
  have c: "\<forall>item. cache ?s1 ''k'' = Some item \<and> expires item < int 1150 \<longrightarrow>
         getCache 1150 ''k'' ?s1 = (None, ?s1\<lparr>cache := (cache ?s1)(''k'' := None), cacheMisses := cacheMisses ?s1 + 1\<rparr>)"
    by blast
  from a have a': "getCache 1000 ''k'' ?s0 = (None, \<lparr>cache = Map.empty, cacheHits = 0, cacheMisses = 1\<rparr>)"
    by simp
  from b s1 have b': "getCache 1000 ''k'' ?s1 = (Some 7, \<lparr>cache = [''k'' \<mapsto> \<lparr>value' = 7, expires = 1100\<rparr>], cacheHits = 1, cacheMisses = 0\<rparr>)"
    by simp
  from c s1 have c': "getCache 1150 ''k'' ?s1 = (None, \<lparr>cache = Map.empty, cacheHits = 0, cacheMisses = 1\<rparr>)"
    by simp
  from a' b' c' show ?thesis by blast
qed

subsection \<open>Sync with retry\<close>

lemma toString_radix_500: "toString_radix 10 500 = ''500''"
  by (simp add: toString_radix.simps digit_char_def)

text \<open>
  Claim C6. \<^verbatim>\<open>syncToServer\<close> makes at most three attempts. It returns at the first
  attempt that succeeds, with the number of failed attempts before it; after the first
  failure it waits 2000 ms and after the second 4000 ms, the delay doubling; when the
  third attempt fails too, the error of that attempt reaches the caller. The four cases
  are all the cases.
\<close>

theorem syncToServer_retry:
  "(sync_attempt (net 0) = Inr () \<longrightarrow> syncToServer net = (Inr (), 0, []))
   \<and> (\<forall>e0. sync_attempt (net 0) = Inl e0 \<and> sync_attempt (net 1) = Inr () \<longrightarrow>
         syncToServer net = (Inr (), 1, [2000]))
   \<and> (\<forall>e0 e1. sync_attempt (net 0) = Inl e0 \<and> sync_attempt (net 1) = Inl e1 \<and>
         sync_attempt (net 2) = Inr () \<longrightarrow>
         syncToServer net = (Inr (), 2, [2000, 4000]))
   \<and> (\<forall>e0 e1 e2. sync_attempt (net 0) = Inl e0 \<and> sync_attempt (net 1) = Inl e1 \<and>
         sync_attempt (net 2) = Inl e2 \<longrightarrow>
         syncToServer net = (Inl e2, 3, [2000, 4000]))"
  by (simp add: syncToServer_def maxRetries_def syncToServer_loop.simps [of net 0]
      syncToServer_loop.simps [of net 1] syncToServer_loop.simps [of net 2]
      syncToServer_loop.simps [of net "Suc 0"] syncToServer_loop.simps [of net "Suc (Suc 0)"]
      numeral_2_eq_2)

text \<open>
  Two rejected requests and then a response that is \<^verbatim>\<open>ok\<close>; and a server that
  answers 500 every time.
\<close>

theorem syncToServer_retry_witness:
  "syncToServer (\<lambda>k. if k < 2 then Rejected (TypeError ''Failed to fetch'') else Response True 200)
     = (Inr (), 2, [2000, 4000])
   \<and> syncToServer (\<lambda>k. Response False 500) = (Inl (Error ''Sync failed: 500''), 3, [2000, 4000])"
proof -
  let ?n1 = "\<lambda>k::nat. if k < 2 then Rejected (TypeError ''Failed to fetch'') else Response True 200"
  let ?n2 = "\<lambda>k::nat. Response False 500"
  have "syncToServer ?n1 = (Inr (), 2, [2000, 4000])"
    using syncToServer_retry [of ?n1] by (simp add: sync_attempt_def)
  moreover have "syncToServer ?n2 = (Inl (Error ''Sync failed: 500''), 3, [2000, 4000])"
    using syncToServer_retry [of ?n2] by (simp add: sync_attempt_def toString_radix_500)
  ultimately show ?thesis by blast
qed

subsection \<open>The fallback of auto-save\<close>

lemma saveToIndexedDB_localStorage:
  "localStorage (snd (saveToIndexedDB F fileId c ts br)) = localStorage br"
  by (simp add: saveToIndexedDB_def split: option.splits)

lemma handleAutoSaveError_written:
  assumes "F (LocalStorageSetItem (''backup_'' @ fileId)) = None"
  shows "localStorage (handleAutoSaveError P F now fileId c br) =
           (localStorage br)(''backup_'' @ fileId \<mapsto>
              JSON_stringify P (JObj [(''content'', JStr c), (''timestamp'', JNum (int now))]))"
  using assms by (simp add: handleAutoSaveError_def setItem_def)

lemma handleAutoSaveError_dropped:
  assumes "F (LocalStorageSetItem (''backup_'' @ fileId)) = Some e"
  shows "handleAutoSaveError P F now fileId c br = br"
  using assms by (simp add: handleAutoSaveError_def setItem_def)

lemma autoSave_failure:
  assumes "fst (saveToIndexedDB F fileId c ts br) \<noteq> Inr ()
           \<or> onLine \<and> fst (syncToServer net) \<noteq> Inr ()"
  shows "autoSave P F net onLine ts now c fileId br =
           handleAutoSaveError P F now fileId c (snd (saveToIndexedDB F fileId c ts br))"
proof (cases "saveToIndexedDB F fileId c ts br")
  case (Pair r br1)
  show ?thesis
  proof (cases r)
    case (Inl e)
    with Pair show ?thesis by (simp add: autoSave_def)
  next
    case (Inr u)
    with Pair assms have "onLine" and "fst (syncToServer net) \<noteq> Inr ()"
      by auto
    with Pair Inr show ?thesis
      by (cases "fst (syncToServer net)") (simp_all add: autoSave_def)
  qed
qed

text \<open>
  Claim C7, as the code has it. When the save to IndexedDB fails, or the browser is
  online and the sync fails (after its retries), \<^verbatim>\<open>autoSave\<close> runs the fallback:
  if local storage takes the write, the content and the time are stored under the key
  \<^verbatim>\<open>backup_\<close> followed by the file id; if that write fails too, the error is logged
  and local storage stays as it was.
\<close>

theorem autoSave_fallback:
  assumes "fst (saveToIndexedDB F fileId c ts br) \<noteq> Inr ()
           \<or> onLine \<and> fst (syncToServer net) \<noteq> Inr ()"
  shows "(F (LocalStorageSetItem (''backup_'' @ fileId)) = None \<longrightarrow>
            localStorage (autoSave P F net onLine ts now c fileId br) =
              (localStorage br)(''backup_'' @ fileId \<mapsto>
                 JSON_stringify P (JObj [(''content'', JStr c), (''timestamp'', JNum (int now))])))
         \<and> (F (LocalStorageSetItem (''backup_'' @ fileId)) \<noteq> None \<longrightarrow>
            localStorage (autoSave P F net onLine ts now c fileId br) = localStorage br)"
proof -
  have eq: "autoSave P F net onLine ts now c fileId br =
              handleAutoSaveError P F now fileId c (snd (saveToIndexedDB F fileId c ts br))"
    by (rule autoSave_failure [OF assms])
  show ?thesis
    unfolding eq
    by (auto simp: handleAutoSaveError_written handleAutoSaveError_dropped
        saveToIndexedDB_localStorage)
qed

lemma example_sync_fails:
  "fst (syncToServer (\<lambda>k. Response False 500)) = Inl (Error ''Sync failed: 500'')"
proof -
  have "syncToServer (\<lambda>k. Response False 500) =
          (Inl (Error ''Sync failed: 500''), 3, [2000, 4000])"
    by (simp add: syncToServer_def maxRetries_def sync_attempt_def toString_radix_500
        syncToServer_loop.simps [of _ 0] syncToServer_loop.simps [of _ "Suc 0"]
        syncToServer_loop.simps [of _ "Suc (Suc 0)"] numeral_2_eq_2)
  then show ?thesis by simp
qed

text \<open>
  A save whose sync gets the answer 500 three times: the content is in local storage
  afterwards.
\<close>

theorem autoSave_fallback_witness:
  "localStorage
     (autoSave example_platform no_faults (\<lambda>k. Response False 500) True 1000 15000
        ''let x = 1'' ''file1'' empty_browser)
   = [''backup_file1'' \<mapsto> ''null'']"
proof -
  have f: "fst (saveToIndexedDB no_faults ''file1'' ''let x = 1'' 1000 empty_browser) \<noteq> Inr ()
           \<or> True \<and> fst (syncToServer (\<lambda>k. Response False 500)) \<noteq> Inr ()"
    by (simp add: example_sync_fails)
  have n: "no_faults (LocalStorageSetItem (''backup_'' @ ''file1'')) = None"
    by (simp add: no_faults_def)
  have s: "JSON_stringify example_platform
             (JObj [(''content'', JStr ''let x = 1''), (''timestamp'', JNum (int 15000))]) = ''null''"
    by (simp add: example_platform_def example_data_def)
  from autoSave_fallback [OF f, of example_platform 15000] n
  have "localStorage
          (autoSave example_platform no_faults (\<lambda>k. Response False 500) True 1000 15000
             ''let x = 1'' ''file1'' empty_browser)
        = (localStorage empty_browser)(''backup_'' @ ''file1'' \<mapsto>
             JSON_stringify example_platform
               (JObj [(''content'', JStr ''let x = 1''), (''timestamp'', JNum (int 15000))]))"
    by blast
  then show ?thesis
    unfolding s by (simp add: empty_browser_def)
qed

text \<open>
  The claim as the specification words it says the update is written whenever the
  save fails. With IndexedDB and local storage both out of quota, the save fails, the
  fallback fails, and the browser state is what it was: the update is nowhere.
\<close>

theorem autoSave_fallback_counterexample:
  "autoSave example_platform
     (no_faults(FilesPut ''file1'' \<mapsto> DOMException ''QuotaExceededError'',
                LocalStorageSetItem ''backup_file1'' \<mapsto> DOMException ''QuotaExceededError''))
     (\<lambda>k. Response True 200) True 1000 1001 ''let x = 1'' ''file1'' empty_browser
   = empty_browser"
  by (simp add: autoSave_def saveToIndexedDB_def handleAutoSaveError_def setItem_def)

section \<open>Properties of the reliability service\<close>

subsection \<open>Evaluation at the example inputs\<close>

lemma example_checksum: "generateChecksum example_platform ''{files:[]}'' = Inr ''fd0a''"
  by (simp add: generateChecksum_def example_platform_def TextEncoder_encode_def padStart_def
      toString_radix.simps digit_char_def)

lemma example_object:
  "createBackup_object example_platform t1 t2 example_data svc =
     Inr \<lparr>id' = ''backup_'' @ toString_radix 10 t1, content = ''{files:[]}'', timestamp = t2,
          version = backupCount (recoveryState svc) + 1, checksum = ''fd0a''\<rparr>"
proof -
  have "JSON_stringify example_platform example_data = ''{files:[]}''"
    by (simp add: example_platform_def)
  then show ?thesis
    by (simp add: createBackup_object_def example_checksum)
qed

lemma toString_radix_1000: "toString_radix 10 1000 = ''1000''"
  by (simp add: toString_radix.simps digit_char_def)


lemma example_validate: "validateRecoveredData example_data"
  by (simp add: validateRecoveredData_def example_data_def)

subsection \<open>A failed store write\<close>

text \<open>
  Claim C10. When the write of the snapshot to the store fails, \<^verbatim>\<open>createBackup\<close>
  rethrows the error of the store and leaves the service (so its recovery state) and
  the browser state as they were; the callback of the timer then skips its assignments
  to \<^verbatim>\<open>lastSaved\<close> and \<^verbatim>\<open>unsavedChanges\<close>. Whatever the outcome of
  \<^verbatim>\<open>createBackup\<close>, the service is either unchanged or has its counter one higher,
  and the latter only when the write succeeded.
\<close>

theorem createBackup_store_failure:
  assumes "createBackup_object P t1 t2 data svc = Inr backup"
  shows "(\<forall>e br1. storeBackup F backup br = (Inl e, br1) \<longrightarrow>
            createBackup P F t1 t2 data svc br = (Inl e, svc, br)
            \<and> autoBackup_callback P F t1 t2 t3 data svc br = (svc, br))
         \<and> (fst (snd (createBackup P F t1 t2 data svc br)) = svc
            \<or> fst (storeBackup F backup br) = Inr ()
              \<and> fst (snd (createBackup P F t1 t2 data svc br)) =
                  svc\<lparr>recoveryState :=
                        (recoveryState svc)\<lparr>backupCount := backupCount (recoveryState svc) + 1\<rparr>\<rparr>)"
proof -
  have a: "createBackup P F t1 t2 data svc br = (Inl e, svc, br)
           \<and> autoBackup_callback P F t1 t2 t3 data svc br = (svc, br)"
    if "storeBackup F backup br = (Inl e, br1)" for e br1
  proof -
    from that have "br1 = br"
      by (auto simp: storeBackup_def split: option.splits)
    with that assms show ?thesis
      by (simp add: createBackup_def autoBackup_callback_def)
  qed
  have b: "fst (snd (createBackup P F t1 t2 data svc br)) = svc
           \<or> fst (storeBackup F backup br) = Inr ()
             \<and> fst (snd (createBackup P F t1 t2 data svc br)) =
                 svc\<lparr>recoveryState :=
                       (recoveryState svc)\<lparr>backupCount := backupCount (recoveryState svc) + 1\<rparr>\<rparr>"
    using assms
    by (auto simp: createBackup_def Let_def split: prod.splits sum.splits)
  from a b show ?thesis by blast
qed

text \<open>A quota error on the write of the first backup of a session.\<close>

theorem createBackup_store_failure_witness:
  "createBackup example_platform (no_faults(BackupsPut ''backup_1000'' \<mapsto> DOMException ''QuotaExceededError''))
       1000 1000 example_data initial_service empty_browser
     = (Inl (DOMException ''QuotaExceededError''), initial_service, empty_browser)
   \<and> autoBackup_callback example_platform
         (no_faults(BackupsPut ''backup_1000'' \<mapsto> DOMException ''QuotaExceededError''))
         1000 1000 1030 example_data initial_service empty_browser
     = (initial_service, empty_browser)"
proof -
  let ?F = "no_faults(BackupsPut ''backup_1000'' \<mapsto> DOMException ''QuotaExceededError'')"
  let ?b = "\<lparr>id' = ''backup_1000'', content = ''{files:[]}'', timestamp = 1000,
             version = backupCount (recoveryState initial_service) + 1, checksum = ''fd0a''\<rparr>"
  have obj: "createBackup_object example_platform 1000 1000 example_data initial_service = Inr ?b"
    by (simp add: example_object toString_radix_1000)
  have st: "storeBackup ?F ?b empty_browser = (Inl (DOMException ''QuotaExceededError''), empty_browser)"
    by (simp add: storeBackup_def)
  from createBackup_store_failure [OF obj, of ?F empty_browser 1030] st
  show ?thesis by blast
qed

subsection \<open>Checksum round trip\<close>

lemma createBackup_success:
  assumes "createBackup P F t1 t2 data svc br = (Inr (), svc', br')"
  shows "\<exists>b br1. createBackup_object P t1 t2 data svc = Inr b
           \<and> storeBackup F b br = (Inr (), br1)
           \<and> svc' = svc\<lparr>recoveryState :=
                        (recoveryState svc)\<lparr>backupCount := backupCount (recoveryState svc) + 1\<rparr>\<rparr>"
  using assms
  by (auto simp: createBackup_def Let_def split: prod.splits sum.splits)

lemma storeBackup_mem:
  assumes "storeBackup F b br = (Inr (), br1)"
  shows "b \<in> set (backups br1)"
  using assms
  by (auto simp: storeBackup_def store_put_def set_insort_key split: option.splits)




lemma example_stringify_state:
  "JSON_stringify example_platform (RecoveryState_json rs) = ''null''"
  by (simp add: example_platform_def RecoveryState_json_def example_data_def)



subsection \<open>Version numbers\<close>






lemma example_createBackup:
  "createBackup example_platform no_faults t1 t2 example_data svc br =
     (Inr (),
      svc\<lparr>recoveryState := (recoveryState svc)\<lparr>backupCount := backupCount (recoveryState svc) + 1\<rparr>\<rparr>,
      cleanOldBackups no_faults svc
        (br\<lparr>backups :=
              store_put
                \<lparr>id' = ''backup_'' @ toString_radix 10 t1, content = ''{files:[]}'', timestamp = t2,
                 version = backupCount (recoveryState svc) + 1, checksum = ''fd0a''\<rparr>
                (backups br),
            localStorage := (localStorage br)(''codebuddy_recovery_state'' \<mapsto> ''null'')\<rparr>))"
  by (simp add: createBackup_def example_object storeBackup_def no_faults_def
      updateRecoveryState_def example_stringify_state setItem_def cleanOldBackups_def
      getBackups_def)





subsection \<open>Recovery\<close>

lemma recoverFromCrash_latest_invalid:
  assumes "F BackupsGetAll = None"
    and "sort_newest_first (backups br) = b1 # rest"
    and "\<not> verifyBackup P b1"
  shows "recoverFromCrash P F br = recoverFromBackup P (nth_opt rest 0)"
proof -
  have "backups br \<noteq> []"
    using assms(2) by (auto simp: sort_newest_first_def)
  moreover have "nth_opt (b1 # rest) 1 = nth_opt rest 0"
    by (cases rest) (simp_all add: nth_opt_def)
  ultimately show ?thesis
    using assms by (simp add: recoverFromCrash_def getBackups_def Let_def)
qed

lemma recoverFromCrash_latest_valid:
  assumes "F BackupsGetAll = None"
    and "sort_newest_first (backups br) = b1 # rest"
    and "verifyBackup P b1"
  shows "recoverFromCrash P F br = recoverFromBackup P (Some b1)"
proof -
  have "backups br \<noteq> []"
    using assms(2) by (auto simp: sort_newest_first_def)
  then show ?thesis
    using assms by (simp add: recoverFromCrash_def getBackups_def Let_def)
qed

lemma example_parse: "JSON_parse example_platform ''{files:[]}'' = Inr example_data"
  by (simp add: example_platform_def)

lemma example_recoverFromBackup:
  "content b = ''{files:[]}'' \<Longrightarrow> recoverFromBackup example_platform (Some b) = Inr (Some example_data)"
  by (simp add: recoverFromBackup_def example_parse example_validate)

text \<open>
  Claim C1 at a store of two snapshots whose checksums are both wrong (the content of
  each is intact, its checksum field is not the digest): \<^verbatim>\<open>recoverFromCrash\<close>
  verifies the newest only, and hands the next one to \<^verbatim>\<open>recoverFromBackup\<close>
  without verifying it, so the result is the payload of a snapshot that fails
  verification. With one snapshot only, and that one corrupted, the second element of
  the list is \<^verbatim>\<open>undefined\<close> and the call rejects with a \<^verbatim>\<open>TypeError\<close>.
  With a corrupted newest snapshot, an unreadable second one and a valid oldest one,
  the call rejects with the error of the second: the oldest is never tried.
\<close>

theorem recoverFromCrash_unverified_fallback:
  "\<not> verifyBackup example_platform
        \<lparr>id' = ''backup_3000'', content = ''{files:[]}'', timestamp = 3000, version = 3,
         checksum = ''0000''\<rparr>
   \<and> \<not> verifyBackup example_platform
        \<lparr>id' = ''backup_2000'', content = ''{files:[]}'', timestamp = 2000, version = 2,
         checksum = ''ffff''\<rparr>
   \<and> recoverFromCrash example_platform no_faults
        \<lparr>localStorage = Map.empty,
         backups = [\<lparr>id' = ''backup_2000'', content = ''{files:[]}'', timestamp = 2000,
                     version = 2, checksum = ''ffff''\<rparr>,
                    \<lparr>id' = ''backup_3000'', content = ''{files:[]}'', timestamp = 3000,
                     version = 3, checksum = ''0000''\<rparr>],
         files = Map.empty, intervals = {}, next_handle = 1\<rparr>
       = Inr (Some example_data)
   \<and> recoverFromCrash example_platform no_faults
        \<lparr>localStorage = Map.empty,
         backups = [\<lparr>id' = ''backup_3000'', content = ''{files:[]}'', timestamp = 3000,
                     version = 3, checksum = ''0000''\<rparr>],
         files = Map.empty, intervals = {}, next_handle = 1\<rparr>
       = Inl (TypeError ''Cannot read properties of undefined'')
   \<and> verifyBackup example_platform
        \<lparr>id' = ''backup_1000'', content = ''{files:[]}'', timestamp = 1000, version = 1,
         checksum = ''fd0a''\<rparr>
   \<and> recoverFromCrash example_platform no_faults
        \<lparr>localStorage = Map.empty,
         backups = [\<lparr>id' = ''backup_1000'', content = ''{files:[]}'', timestamp = 1000,
                     version = 1, checksum = ''fd0a''\<rparr>,
                    \<lparr>id' = ''backup_2000'', content = ''{files:'', timestamp = 2000,
                     version = 2, checksum = ''ffff''\<rparr>,
                    \<lparr>id' = ''backup_3000'', content = ''{files:[]}'', timestamp = 3000,
                     version = 3, checksum = ''0000''\<rparr>],
         files = Map.empty, intervals = {}, next_handle = 1\<rparr>
       = Inl (SyntaxError ''Unexpected token'')"
proof -
  let ?v3 = "\<lparr>id' = ''backup_3000'', content = ''{files:[]}'', timestamp = 3000, version = 3,
         checksum = ''0000''\<rparr>"
  let ?v2 = "\<lparr>id' = ''backup_2000'', content = ''{files:[]}'', timestamp = 2000, version = 2,
         checksum = ''ffff''\<rparr>"
  let ?br2 = "\<lparr>localStorage = Map.empty, backups = [?v2, ?v3],
         files = Map.empty, intervals = {}, next_handle = 1\<rparr>"
  let ?br1 = "\<lparr>localStorage = Map.empty, backups = [?v3],
         files = Map.empty, intervals = {}, next_handle = 1\<rparr>"
  have n3: "\<not> verifyBackup example_platform ?v3"
    by (simp add: verifyBackup_def example_checksum)
  have n2: "\<not> verifyBackup example_platform ?v2"
    by (simp add: verifyBackup_def example_checksum)
  have s2: "sort_newest_first (backups ?br2) = [?v3, ?v2]"
    by (simp add: sort_newest_first_def)
  have s1: "sort_newest_first (backups ?br1) = [?v3]"
    by (simp add: sort_newest_first_def)
  have g: "no_faults BackupsGetAll = None"
    by (simp add: no_faults_def)
  have r2: "recoverFromCrash example_platform no_faults ?br2 = Inr (Some example_data)"
    unfolding recoverFromCrash_latest_invalid [where F = no_faults and br = ?br2 and rest = "[?v2]", OF g s2 n3]
    by (simp add: nth_opt_def example_recoverFromBackup)
  have r1: "recoverFromCrash example_platform no_faults ?br1 =
              Inl (TypeError ''Cannot read properties of undefined'')"
    unfolding recoverFromCrash_latest_invalid [where F = no_faults and br = ?br1 and rest = "[]", OF g s1 n3]
    by (simp add: nth_opt_def recoverFromBackup_def)
  let ?v1 = "\<lparr>id' = ''backup_1000'', content = ''{files:[]}'', timestamp = 1000, version = 1,
         checksum = ''fd0a''\<rparr>"
  let ?u2 = "\<lparr>id' = ''backup_2000'', content = ''{files:'', timestamp = 2000, version = 2,
         checksum = ''ffff''\<rparr>"
  let ?br3 = "\<lparr>localStorage = Map.empty, backups = [?v1, ?u2, ?v3],
         files = Map.empty, intervals = {}, next_handle = 1\<rparr>"
  have y1: "verifyBackup example_platform ?v1"
    by (simp add: verifyBackup_def example_checksum)
  have s3: "sort_newest_first (backups ?br3) = [?v3, ?u2, ?v1]"
    by (simp add: sort_newest_first_def)
  have r3: "recoverFromCrash example_platform no_faults ?br3 =
              Inl (SyntaxError ''Unexpected token'')"
    unfolding recoverFromCrash_latest_invalid
      [where F = no_faults and br = ?br3 and rest = "[?u2, ?v1]", OF g s3 n3]
    by (simp add: nth_opt_def recoverFromBackup_def example_platform_def)
  from n3 n2 r2 r1 y1 r3 show ?thesis by blast
qed

subsection \<open>The crash flag\<close>

lemma initializeRecovery_sets_flag:
  assumes "initializeRecovery F svc br = (Inr (), svc1, br1)"
  shows "localStorage br1 = (localStorage br)(''codebuddy_crash_flag'' \<mapsto> ''true'')"
  using assms
  by (auto simp: initializeRecovery_def setItem_def Let_def split: option.splits)

lemma new_ReliabilityService_crash:
  "isCrashRecoveryAvailable (fst (snd (new_ReliabilityService F br))) =
     item_truthy (getItem ''codebuddy_crash_flag'' br)"
  by (simp add: new_ReliabilityService_def initializeRecovery_def isCrashRecoveryAvailable_def
      Let_def initial_service_def split: prod.splits)

text \<open>
  Claim C5. Once \<^verbatim>\<open>initializeRecovery\<close> has returned, having set the flag, the flag is
  in local storage and the next instance of the service, constructed on that storage,
  detects a crash. If the \<^verbatim>\<open>beforeunload\<close> listener or \<^verbatim>\<open>cleanup\<close> has run in
  between, the flag is gone and the next instance detects none.
\<close>

theorem crash_flag_round_trip:
  assumes "initializeRecovery F svc br = (Inr (), svc1, br1)"
  shows "getItem ''codebuddy_crash_flag'' br1 = Some ''true''
         \<and> isCrashRecoveryAvailable (fst (snd (new_ReliabilityService F' br1)))
         \<and> getItem ''codebuddy_crash_flag'' (beforeunload_listener br1) = None
         \<and> \<not> isCrashRecoveryAvailable
               (fst (snd (new_ReliabilityService F' (beforeunload_listener br1))))
         \<and> getItem ''codebuddy_crash_flag'' (snd (cleanup svc1 br1)) = None
         \<and> \<not> isCrashRecoveryAvailable
               (fst (snd (new_ReliabilityService F' (snd (cleanup svc1 br1)))))"
proof -
  have ls: "localStorage br1 = (localStorage br)(''codebuddy_crash_flag'' \<mapsto> ''true'')"
    by (rule initializeRecovery_sets_flag [OF assms])
  have a: "getItem ''codebuddy_crash_flag'' br1 = Some ''true''"
    by (simp add: getItem_def ls)
  have b: "getItem ''codebuddy_crash_flag'' (beforeunload_listener br1) = None"
    by (simp add: getItem_def beforeunload_listener_def removeItem_def)
  have c: "getItem ''codebuddy_crash_flag'' (snd (cleanup svc1 br1)) = None"
    by (simp add: getItem_def cleanup_def removeItem_def split: prod.splits)
  from a b c show ?thesis
    by (simp add: new_ReliabilityService_crash item_truthy_def)
qed

lemma example_initializeRecovery:
  "initializeRecovery no_faults initial_service empty_browser =
     (Inr (), initial_service,
      \<lparr>localStorage = [''codebuddy_crash_flag'' \<mapsto> ''true''], backups = [], files = Map.empty,
       intervals = {}, next_handle = 1\<rparr>)"
  by (simp add: initializeRecovery_def getItem_def setItem_def no_faults_def empty_browser_def
      item_truthy_def)

text \<open>The first start on an empty browser, then a start after a crash and one after an unload.\<close>

theorem crash_flag_round_trip_witness:
  "isCrashRecoveryAvailable
     (fst (snd (new_ReliabilityService no_faults
        \<lparr>localStorage = [''codebuddy_crash_flag'' \<mapsto> ''true''], backups = [], files = Map.empty,
         intervals = {}, next_handle = 1\<rparr>)))
   \<and> \<not> isCrashRecoveryAvailable
       (fst (snd (new_ReliabilityService no_faults
          (beforeunload_listener
             \<lparr>localStorage = [''codebuddy_crash_flag'' \<mapsto> ''true''], backups = [],
              files = Map.empty, intervals = {}, next_handle = 1\<rparr>))))"
  using crash_flag_round_trip [OF example_initializeRecovery, of no_faults] by blast

subsection \<open>Retention\<close>

lemma wf_store_distinct:
  assumes "wf_store db"
  shows "distinct (map id' db)"
  using assms by (simp add: wf_store_def strict_sorted_iff)

lemma wf_store_put:
  assumes "wf_store db"
  shows "wf_store (store_put b db)"
proof -
  let ?rest = "filter (\<lambda>x. id' x \<noteq> id' b) db"
  from assms have s: "sorted (map id' db)" and d: "distinct (map id' db)"
    by (simp_all add: wf_store_def strict_sorted_iff)
  have "sorted (map id' ?rest)"
    using s by (rule sorted_filter)
  then have 1: "sorted (map id' (insort_key id' b ?rest))"
    by (simp add: sorted_insort_key)
  have "distinct (map id' ?rest)"
    using d by (rule distinct_map_filter)
  moreover have "id' b \<notin> id' ` set ?rest"
    by auto
  ultimately have 2: "distinct (map id' (insort_key id' b ?rest))"
    by (simp add: distinct_insort_key)
  from 1 2 show ?thesis
    by (simp add: wf_store_def store_put_def strict_sorted_iff)
qed

lemma wf_store_empty: "wf_store []"
  by (simp add: wf_store_def)

lemma wf_store_delete:
  assumes "wf_store db"
  shows "wf_store (filter (\<lambda>x. id' x \<noteq> i) db)"
proof -
  from assms have "sorted (map id' db)" and "distinct (map id' db)"
    by (simp_all add: wf_store_def strict_sorted_iff)
  then have "sorted (map id' (filter (\<lambda>x. id' x \<noteq> i) db))"
    and "distinct (map id' (filter (\<lambda>x. id' x \<noteq> i) db))"
    by (simp_all add: sorted_filter distinct_map_filter)
  then show ?thesis
    by (simp add: wf_store_def strict_sorted_iff)
qed

lemma distinct_map_sort_key:
  "distinct (map f (sort_key g xs)) = distinct (map f xs)"
proof (induction xs)
  case Nil
  show ?case by simp
next
  case (Cons x xs)
  have "distinct (map f (insort_key g x ys)) = (f x \<notin> f ` set ys \<and> distinct (map f ys))" for ys
    by (induction ys) (auto simp: set_insort_key)
  with Cons show ?case by simp
qed

lemma set_sort_newest_first [simp]: "set (sort_newest_first bs) = set bs"
  by (simp add: sort_newest_first_def)

lemma length_sort_newest_first [simp]: "length (sort_newest_first bs) = length bs"
  by (simp add: sort_newest_first_def)

lemma sort_newest_first_head:
  assumes "b \<in> set bs"
  shows "timestamp b \<le> timestamp (hd (sort_newest_first bs))"
proof -
  let ?key = "\<lambda>b. - int (timestamp b)"
  let ?s = "sort_newest_first bs"
  from assms have "?s \<noteq> []"
    by (metis empty_iff empty_set set_sort_newest_first)
  then obtain x xs where s: "?s = x # xs"
    by (cases ?s) auto
  have "sorted (map ?key ?s)"
    by (simp add: sort_newest_first_def)
  with s have "\<forall>y\<in>set xs. ?key x \<le> ?key y"
    by simp
  moreover from assms s have "b = x \<or> b \<in> set xs"
    by (metis set_ConsD set_sort_newest_first)
  ultimately have "?key x \<le> ?key b"
    by auto
  with s show ?thesis by simp
qed

lemma unique_newest_is_head:
  assumes "b \<in> set bs"
    and "\<forall>b'\<in>set bs. b' \<noteq> b \<longrightarrow> timestamp b' < timestamp b"
  shows "hd (sort_newest_first bs) = b"
proof (rule ccontr)
  let ?h = "hd (sort_newest_first bs)"
  assume neq: "?h \<noteq> b"
  from assms(1) have "sort_newest_first bs \<noteq> []"
    by (metis empty_iff empty_set set_sort_newest_first)
  then have "?h \<in> set bs"
    by (metis hd_in_set set_sort_newest_first)
  with assms(2) neq have "timestamp ?h < timestamp b"
    by blast
  with sort_newest_first_head [OF assms(1)] show False
    by simp
qed

lemma ids_take_drop_disjoint:
  assumes "wf_store bs"
  shows "id' ` set (take m (sort_newest_first bs)) \<inter> id' ` set (drop m (sort_newest_first bs)) = {}"
proof -
  let ?s = "sort_newest_first bs"
  have "distinct (map id' ?s)"
    using wf_store_distinct [OF assms]
    by (simp add: sort_newest_first_def distinct_map_sort_key)
  then have "distinct (map id' (take m ?s) @ map id' (drop m ?s))"
    by (metis append_take_drop_id map_append)
  then show ?thesis
    by (simp add: distinct_append)
qed

lemma delete_each_subset:
  "set (backups (snd (delete_each F del br))) \<subseteq> set (backups br)"
proof (induction del arbitrary: br)
  case Nil
  show ?case by simp
next
  case (Cons d del)
  show ?case
  proof (cases "F (BackupsDelete (id' d))")
    case None
    then have "snd (delete_each F (d # del) br) =
                 snd (delete_each F del (br\<lparr>backups := filter (\<lambda>x. id' x \<noteq> id' d) (backups br)\<rparr>))"
      by (simp add: deleteBackup_def)
    with Cons.IH [of "br\<lparr>backups := filter (\<lambda>x. id' x \<noteq> id' d) (backups br)\<rparr>"]
    show ?thesis by auto
  next
    case (Some e)
    then show ?thesis by (simp add: deleteBackup_def)
  qed
qed

lemma delete_each_keeps:
  assumes "x \<in> set (backups br)" and "id' x \<notin> id' ` set del"
  shows "x \<in> set (backups (snd (delete_each F del br)))"
  using assms
proof (induction del arbitrary: br)
  case Nil
  then show ?case by simp
next
  case (Cons d del)
  show ?case
  proof (cases "F (BackupsDelete (id' d))")
    case None
    let ?br1 = "br\<lparr>backups := filter (\<lambda>x. id' x \<noteq> id' d) (backups br)\<rparr>"
    from None have eq: "snd (delete_each F (d # del) br) = snd (delete_each F del ?br1)"
      by (simp add: deleteBackup_def)
    from Cons.prems have "x \<in> set (backups ?br1)" and "id' x \<notin> id' ` set del"
      by auto
    then have "x \<in> set (backups (snd (delete_each F del ?br1)))"
      by (rule Cons.IH)
    with eq show ?thesis by simp
  next
    case (Some e)
    with Cons.prems show ?thesis by (simp add: deleteBackup_def)
  qed
qed

lemma delete_each_no_faults:
  assumes "\<forall>i. F (BackupsDelete i) = None"
  shows "backups (snd (delete_each F del br)) =
           filter (\<lambda>x. id' x \<notin> id' ` set del) (backups br)"
proof (induction del arbitrary: br)
  case Nil
  show ?case by simp
next
  case (Cons d del)
  let ?br1 = "br\<lparr>backups := filter (\<lambda>x. id' x \<noteq> id' d) (backups br)\<rparr>"
  from assms have eq: "snd (delete_each F (d # del) br) = snd (delete_each F del ?br1)"
    by (simp add: deleteBackup_def)
  have "backups (snd (delete_each F del ?br1)) =
          filter (\<lambda>x. id' x \<notin> id' ` set del) (backups ?br1)"
    by (rule Cons.IH)
  with eq show ?case
    by (auto intro: filter_cong)
qed

lemma cleanOldBackups_subset:
  "set (backups (cleanOldBackups F svc br)) \<subseteq> set (backups br)"
  by (auto simp: cleanOldBackups_def getBackups_def Let_def
      dest: subsetD [OF delete_each_subset] split: option.splits)

lemma cleanOldBackups_head:
  assumes "wf_store (backups br)" and "1 \<le> maxBackups svc" and "backups br \<noteq> []"
  shows "hd (sort_newest_first (backups br)) \<in> set (backups (cleanOldBackups F svc br))"
proof -
  let ?s = "sort_newest_first (backups br)"
  let ?m = "maxBackups svc"
  from assms(3) have ne: "?s \<noteq> []"
    by (metis length_0_conv length_sort_newest_first)
  then have mem: "hd ?s \<in> set (backups br)"
    by (metis hd_in_set set_sort_newest_first)
  from ne assms(2) have "hd ?s \<in> set (take ?m ?s)"
    by (cases ?s; cases ?m) auto
  with ids_take_drop_disjoint [OF assms(1), of ?m]
  have "id' (hd ?s) \<notin> id' ` set (drop ?m ?s)"
    by blast
  with mem have "hd ?s \<in> set (backups (snd (delete_each F (drop ?m ?s) br)))"
    by (rule delete_each_keeps)
  with mem show ?thesis
    by (simp add: cleanOldBackups_def getBackups_def Let_def split: option.splits)
qed

lemma cleanOldBackups_exact:
  assumes "wf_store (backups br)"
    and "F BackupsGetAll = None" and "\<forall>i. F (BackupsDelete i) = None"
  shows "set (backups (cleanOldBackups F svc br)) =
           set (take (maxBackups svc) (sort_newest_first (backups br)))"
proof (cases "length (backups br) \<le> maxBackups svc")
  case True
  then show ?thesis
    using assms(2) by (simp add: cleanOldBackups_def getBackups_def)
next
  case False
  let ?s = "sort_newest_first (backups br)"
  let ?m = "maxBackups svc"
  have res: "backups (cleanOldBackups F svc br) =
               filter (\<lambda>x. id' x \<notin> id' ` set (drop ?m ?s)) (backups br)"
    using False assms(2) delete_each_no_faults [OF assms(3)]
    by (simp add: cleanOldBackups_def getBackups_def Let_def)
  have split: "set (backups br) = set (take ?m ?s) \<union> set (drop ?m ?s)"
    by (metis append_take_drop_id set_append set_sort_newest_first)
  have dj: "id' ` set (take ?m ?s) \<inter> id' ` set (drop ?m ?s) = {}"
    by (rule ids_take_drop_disjoint [OF assms(1)])
  show ?thesis
  proof (rule set_eqI)
    fix x
    show "x \<in> set (backups (cleanOldBackups F svc br)) \<longleftrightarrow> x \<in> set (take ?m ?s)"
    proof
      assume "x \<in> set (backups (cleanOldBackups F svc br))"
      with res have "x \<in> set (backups br)" and "id' x \<notin> id' ` set (drop ?m ?s)"
        by auto
      with split show "x \<in> set (take ?m ?s)"
        by auto
    next
      assume x: "x \<in> set (take ?m ?s)"
      with dj have "id' x \<notin> id' ` set (drop ?m ?s)"
        by blast
      moreover from x split have "x \<in> set (backups br)"
        by blast
      ultimately show "x \<in> set (backups (cleanOldBackups F svc br))"
        using res by simp
    qed
  qed
qed

lemma createBackup_keeps_new:
  assumes wf: "wf_store (backups br)" and m: "1 \<le> maxBackups svc"
    and cb: "createBackup P F t1 t2 data svc br = (Inr (), svc', br')"
    and newer: "\<forall>b'\<in>set (backups br). timestamp b' < t2"
  shows "\<exists>b. createBackup_object P t1 t2 data svc = Inr b \<and> b \<in> set (backups br')"
proof -
  from createBackup_success [OF cb] obtain b br1 where
    obj: "createBackup_object P t1 t2 data svc = Inr b" and
    st: "storeBackup F b br = (Inr (), br1)" and
    svc': "svc' = svc\<lparr>recoveryState :=
                      (recoveryState svc)\<lparr>backupCount := backupCount (recoveryState svc) + 1\<rparr>\<rparr>"
    by blast
  from st have br1: "backups br1 = store_put b (backups br)"
    by (auto simp: storeBackup_def split: option.splits)
  from cb obj st obtain br2 where
    upd: "updateRecoveryState P F svc' br1 = (Inr (), br2)" and
    br': "br' = cleanOldBackups F svc' br2"
    by (auto simp: createBackup_def Let_def svc' split: prod.splits sum.splits)
  from upd have br2: "backups br2 = backups br1"
    by (auto simp: updateRecoveryState_def setItem_def split: option.splits)
  have ts: "timestamp b = t2"
    using obj by (auto simp: createBackup_object_def split: sum.splits)
  have wf2: "wf_store (backups br2)"
    unfolding br2 br1 by (rule wf_store_put [OF wf])
  have mem: "b \<in> set (backups br2)"
    unfolding br2 by (rule storeBackup_mem [OF st])
  have "\<forall>b'\<in>set (backups br2). b' \<noteq> b \<longrightarrow> timestamp b' < timestamp b"
    using newer by (auto simp: br2 br1 store_put_def set_insort_key ts)
  with mem have "hd (sort_newest_first (backups br2)) = b"
    by (rule unique_newest_is_head)
  moreover have "1 \<le> maxBackups svc'"
    using m by (simp add: svc')
  moreover from mem have "backups br2 \<noteq> []"
    by auto
  ultimately have "b \<in> set (backups (cleanOldBackups F svc' br2))"
    using cleanOldBackups_head [OF wf2, of svc' F] by simp
  with obj br' show ?thesis by blast
qed

text \<open>
  Claim C3, as the code has it. \<^verbatim>\<open>cleanOldBackups\<close> orders the snapshots by their
  timestamp, not by the order of their creation. On a store with one record per key and
  a limit of at least one, a snapshot whose timestamp is strictly later than that of
  every other one is still in the store afterwards, whichever requests fail; so is, on
  any non-empty store, the first snapshot of the list sorted newest first (among
  snapshots that share the latest timestamp, the sort is stable and the one that comes
  first in key order is the head). Nothing is added. When no request fails, the
  snapshots left are exactly the \<^verbatim>\<open>maxBackups\<close> first of the list sorted newest
  first. A successful \<^verbatim>\<open>createBackup\<close>, which ends with this cleaning, leaves the
  snapshot it has just written in the store provided that its timestamp is strictly
  later than those of the snapshots already there.
\<close>

theorem cleanOldBackups_keeps_newest:
  assumes "wf_store (backups br)" and "1 \<le> maxBackups svc"
  shows "(\<forall>b\<in>set (backups br).
            (\<forall>b'\<in>set (backups br). b' \<noteq> b \<longrightarrow> timestamp b' < timestamp b) \<longrightarrow>
            b \<in> set (backups (cleanOldBackups F svc br)))
         \<and> (backups br \<noteq> [] \<longrightarrow>
              hd (sort_newest_first (backups br)) \<in> set (backups (cleanOldBackups F svc br)))
         \<and> set (backups (cleanOldBackups F svc br)) \<subseteq> set (backups br)
         \<and> (F BackupsGetAll = None \<and> (\<forall>i. F (BackupsDelete i) = None) \<longrightarrow>
              set (backups (cleanOldBackups F svc br)) =
                set (take (maxBackups svc) (sort_newest_first (backups br))))
         \<and> (\<forall>P t1 t2 data svc' br'.
              createBackup P F t1 t2 data svc br = (Inr (), svc', br') \<and>
              (\<forall>b'\<in>set (backups br). timestamp b' < t2) \<longrightarrow>
              (\<exists>b. createBackup_object P t1 t2 data svc = Inr b \<and> b \<in> set (backups br')))"
proof -
  have a: "b \<in> set (backups (cleanOldBackups F svc br))"
    if "b \<in> set (backups br)"
      and "\<forall>b'\<in>set (backups br). b' \<noteq> b \<longrightarrow> timestamp b' < timestamp b" for b
  proof -
    from that have "hd (sort_newest_first (backups br)) = b"
      by (rule unique_newest_is_head)
    moreover from that(1) have "backups br \<noteq> []"
      by auto
    ultimately show ?thesis
      using cleanOldBackups_head [OF assms, of F] by simp
  qed
  have b: "backups br \<noteq> [] \<longrightarrow>
             hd (sort_newest_first (backups br)) \<in> set (backups (cleanOldBackups F svc br))"
    using cleanOldBackups_head [OF assms] by blast
  have c: "F BackupsGetAll = None \<and> (\<forall>i. F (BackupsDelete i) = None) \<longrightarrow>
             set (backups (cleanOldBackups F svc br)) =
               set (take (maxBackups svc) (sort_newest_first (backups br)))"
    using cleanOldBackups_exact [OF assms(1)] by blast
  have d: "\<exists>b. createBackup_object P t1 t2 data svc = Inr b \<and> b \<in> set (backups br')"
    if "createBackup P F t1 t2 data svc br = (Inr (), svc', br')"
      and "\<forall>b'\<in>set (backups br). timestamp b' < t2" for P t1 t2 data svc' br'
    using createBackup_keeps_new [OF assms that] .
  from a b c d cleanOldBackups_subset [of F svc br] show ?thesis
    by blast
qed

text \<open>
  A limit of two and three snapshots in the store: the oldest goes, the newest stays.
\<close>

theorem cleanOldBackups_keeps_newest_witness:
  "\<lparr>id' = ''backup_3000'', content = ''{files:[]}'', timestamp = 3000, version = 3,
    checksum = ''fd0a''\<rparr>
     \<in> set (backups (cleanOldBackups no_faults (initial_service\<lparr>maxBackups := 2\<rparr>)
         \<lparr>localStorage = Map.empty,
          backups = [\<lparr>id' = ''backup_1000'', content = ''{files:[]}'', timestamp = 1000,
                      version = 1, checksum = ''fd0a''\<rparr>,
                     \<lparr>id' = ''backup_2000'', content = ''{files:[]}'', timestamp = 2000,
                      version = 2, checksum = ''fd0a''\<rparr>,
                     \<lparr>id' = ''backup_3000'', content = ''{files:[]}'', timestamp = 3000,
                      version = 3, checksum = ''fd0a''\<rparr>],
          files = Map.empty, intervals = {}, next_handle = 1\<rparr>))
   \<and> set (backups (cleanOldBackups no_faults (initial_service\<lparr>maxBackups := 2\<rparr>)
         \<lparr>localStorage = Map.empty,
          backups = [\<lparr>id' = ''backup_1000'', content = ''{files:[]}'', timestamp = 1000,
                      version = 1, checksum = ''fd0a''\<rparr>,
                     \<lparr>id' = ''backup_2000'', content = ''{files:[]}'', timestamp = 2000,
                      version = 2, checksum = ''fd0a''\<rparr>,
                     \<lparr>id' = ''backup_3000'', content = ''{files:[]}'', timestamp = 3000,
                      version = 3, checksum = ''fd0a''\<rparr>],
          files = Map.empty, intervals = {}, next_handle = 1\<rparr>))
     = {\<lparr>id' = ''backup_3000'', content = ''{files:[]}'', timestamp = 3000, version = 3,
         checksum = ''fd0a''\<rparr>,
        \<lparr>id' = ''backup_2000'', content = ''{files:[]}'', timestamp = 2000, version = 2,
         checksum = ''fd0a''\<rparr>}"
proof -
  let ?v1 = "\<lparr>id' = ''backup_1000'', content = ''{files:[]}'', timestamp = 1000, version = 1,
              checksum = ''fd0a''\<rparr>"
  let ?v2 = "\<lparr>id' = ''backup_2000'', content = ''{files:[]}'', timestamp = 2000, version = 2,
              checksum = ''fd0a''\<rparr>"
  let ?v3 = "\<lparr>id' = ''backup_3000'', content = ''{files:[]}'', timestamp = 3000, version = 3,
              checksum = ''fd0a''\<rparr>"
  let ?br = "\<lparr>localStorage = Map.empty, backups = [?v1, ?v2, ?v3], files = Map.empty,
              intervals = {}, next_handle = 1\<rparr>"
  let ?svc = "initial_service\<lparr>maxBackups := 2\<rparr>"
  let ?after = "set (backups (cleanOldBackups no_faults ?svc ?br))"
  have wf: "wf_store (backups ?br)"
    by (simp add: wf_store_def)
  have m: "1 \<le> maxBackups ?svc"
    by simp
  have nf: "no_faults BackupsGetAll = None \<and> (\<forall>i. no_faults (BackupsDelete i) = None)"
    by (simp add: no_faults_def)
  have n1: "?v3 \<in> set (backups ?br)"
    by simp
  have n2: "\<forall>b'\<in>set (backups ?br). b' \<noteq> ?v3 \<longrightarrow> timestamp b' < timestamp ?v3"
    by simp
  have srt: "take (maxBackups ?svc) (sort_newest_first (backups ?br)) = [?v3, ?v2]"
    by (simp add: sort_newest_first_def)
  note keeps = cleanOldBackups_keeps_newest [OF wf m, of no_faults]
  have 1: "?v3 \<in> ?after"
    by (rule mp [OF bspec [OF keeps [THEN conjunct1] n1] n2])
  have "?after = set (take (maxBackups ?svc) (sort_newest_first (backups ?br)))"
    by (rule mp [OF keeps [THEN conjunct2, THEN conjunct2, THEN conjunct2, THEN conjunct1] nf])
  then have 2: "?after = {?v3, ?v2}"
    unfolding srt by simp
  from 1 2 show ?thesis by (rule conjI)
qed

lemma toString_radix_3000: "toString_radix 10 3000 = ''3000''"
  by (simp add: toString_radix.simps digit_char_def)

lemma toString_radix_1001: "toString_radix 10 1001 = ''1001''"
  by (simp add: toString_radix.simps digit_char_def)

lemma example_clock_set_back:
  assumes "backups br = example_ten_snapshots"
  shows "createBackup example_platform no_faults 3000 3000 example_data initial_service br =
           (Inr (),
            initial_service\<lparr>recoveryState :=
              (recoveryState initial_service)\<lparr>backupCount :=
                 backupCount (recoveryState initial_service) + 1\<rparr>\<rparr>,
            br\<lparr>localStorage := (localStorage br)(''codebuddy_recovery_state'' \<mapsto> ''null'')\<rparr>)"
proof -
  define b where
    "b = \<lparr>id' = ''backup_'' @ toString_radix 10 3000, content = ''{files:[]}'',
           timestamp = 3000, version = backupCount (recoveryState initial_service) + 1,
           checksum = ''fd0a''\<rparr>"
  define br2 where
    "br2 = br\<lparr>backups := b # example_ten_snapshots,
              localStorage := (localStorage br)(''codebuddy_recovery_state'' \<mapsto> ''null'')\<rparr>"
  have idb: "id' b = ''backup_3000''"
    by (simp add: b_def toString_radix_3000)
  have tsb: "timestamp b = 3000"
    by (simp add: b_def)
  have put: "store_put b example_ten_snapshots = b # example_ten_snapshots"
    by (simp add: store_put_def example_ten_snapshots_def idb)
  have srt: "drop 10 (sort_newest_first (b # example_ten_snapshots)) = [b]"
    by (simp add: sort_newest_first_def example_ten_snapshots_def tsb)
  have len: "length example_ten_snapshots = 10"
    by (simp add: example_ten_snapshots_def)
  have flt: "filter (\<lambda>x. id' x \<noteq> ''backup_3000'') example_ten_snapshots =
               example_ten_snapshots"
    by (simp add: example_ten_snapshots_def)
  have m: "maxBackups initial_service = 10"
    by (simp add: initial_service_def)
  have bk: "backups br2 = b # example_ten_snapshots"
    by (simp add: br2_def)
  have cl: "cleanOldBackups no_faults initial_service br2 =
              br2\<lparr>backups := example_ten_snapshots\<rparr>"
    by (simp add: cleanOldBackups_def getBackups_def no_faults_def m bk len Let_def srt
        deleteBackup_def idb flt)
  have fin: "br2\<lparr>backups := example_ten_snapshots\<rparr> =
               br\<lparr>localStorage := (localStorage br)(''codebuddy_recovery_state'' \<mapsto> ''null'')\<rparr>"
    using assms by (cases br) (simp add: br2_def)
  show ?thesis
    unfolding example_createBackup b_def [symmetric] assms put br2_def [symmetric] cl fin
    by (rule refl)
qed

lemma example_same_timestamp:
  assumes "backups br = [\<lparr>id' = ''backup_1000'', content = ''{files:[]}'', timestamp = 1001,
                           version = 1, checksum = ''fd0a''\<rparr>]"
  shows "createBackup example_platform no_faults 1001 1001 example_data
           (initial_service\<lparr>maxBackups := 1\<rparr>) br =
           (Inr (),
            initial_service\<lparr>maxBackups := 1\<rparr>\<lparr>recoveryState :=
              (recoveryState (initial_service\<lparr>maxBackups := 1\<rparr>))\<lparr>backupCount :=
                 backupCount (recoveryState (initial_service\<lparr>maxBackups := 1\<rparr>)) + 1\<rparr>\<rparr>,
            br\<lparr>localStorage := (localStorage br)(''codebuddy_recovery_state'' \<mapsto> ''null'')\<rparr>)"
proof -
  define svc where "svc = initial_service\<lparr>maxBackups := 1\<rparr>"
  define a where
    "a = \<lparr>id' = ''backup_1000'', content = ''{files:[]}'', timestamp = 1001,
           version = 1, checksum = ''fd0a''\<rparr>"
  define b where
    "b = \<lparr>id' = ''backup_'' @ toString_radix 10 1001, content = ''{files:[]}'',
           timestamp = 1001, version = backupCount (recoveryState svc) + 1,
           checksum = ''fd0a''\<rparr>"
  define br2 where
    "br2 = br\<lparr>backups := [a, b],
              localStorage := (localStorage br)(''codebuddy_recovery_state'' \<mapsto> ''null'')\<rparr>"
  have ids: "id' a = ''backup_1000''" "id' b = ''backup_1001''"
    by (simp_all add: a_def b_def toString_radix_1001)
  have tss: "timestamp a = 1001" "timestamp b = 1001"
    by (simp_all add: a_def b_def)
  have put: "store_put b [a] = [a, b]"
    by (simp add: store_put_def ids)
  have srt: "drop (Suc 0) (sort_newest_first [a, b]) = [b]"
    by (simp add: sort_newest_first_def tss)
  have m: "maxBackups svc = 1"
    by (simp add: svc_def)
  have bk: "backups br2 = [a, b]"
    by (simp add: br2_def)
  have cl: "cleanOldBackups no_faults svc br2 = br2\<lparr>backups := [a]\<rparr>"
    by (simp add: cleanOldBackups_def getBackups_def no_faults_def m bk Let_def srt
        deleteBackup_def ids)
  have fin: "br2\<lparr>backups := [a]\<rparr> =
               br\<lparr>localStorage := (localStorage br)(''codebuddy_recovery_state'' \<mapsto> ''null'')\<rparr>"
    using assms by (cases br) (simp add: br2_def a_def)
  have bra: "backups br = [a]"
    using assms by (simp add: a_def)
  show ?thesis
    unfolding svc_def [symmetric] example_createBackup b_def [symmetric] bra put
      br2_def [symmetric] cl fin
    by (rule refl)
qed

text \<open>
  The claim as the specification words it holds for every store and speaks of the
  snapshot a create has just written. Two stores where \<^verbatim>\<open>createBackup\<close> succeeds and
  the snapshot it wrote is gone when it returns. With the limit of ten and ten
  snapshots stamped 5000 to 5009 in the store, a backup made when the clock reads 3000
  (a clock set back) is the oldest by timestamp and is the one deleted. With a limit of
  one and a stored snapshot stamped 1001, a backup stamped 1001 as well comes second in
  the stable sort and is the one deleted.
\<close>

theorem cleanOldBackups_keeps_newest_counterexample:
  "wf_store example_ten_snapshots
   \<and> createBackup_object example_platform 3000 3000 example_data initial_service =
       Inr \<lparr>id' = ''backup_3000'', content = ''{files:[]}'', timestamp = 3000, version = 1,
            checksum = ''fd0a''\<rparr>
   \<and> createBackup example_platform no_faults 3000 3000 example_data initial_service
        \<lparr>localStorage = Map.empty, backups = example_ten_snapshots, files = Map.empty,
         intervals = {}, next_handle = 1\<rparr>
       = (Inr (),
          initial_service\<lparr>recoveryState := (recoveryState initial_service)\<lparr>backupCount := 1\<rparr>\<rparr>,
          \<lparr>localStorage = [''codebuddy_recovery_state'' \<mapsto> ''null''],
           backups = example_ten_snapshots, files = Map.empty, intervals = {},
           next_handle = 1\<rparr>)
   \<and> \<lparr>id' = ''backup_3000'', content = ''{files:[]}'', timestamp = 3000, version = 1,
        checksum = ''fd0a''\<rparr> \<notin> set example_ten_snapshots
   \<and> createBackup_object example_platform 1001 1001 example_data
        (initial_service\<lparr>maxBackups := 1\<rparr>) =
       Inr \<lparr>id' = ''backup_1001'', content = ''{files:[]}'', timestamp = 1001, version = 1,
            checksum = ''fd0a''\<rparr>
   \<and> createBackup example_platform no_faults 1001 1001 example_data
        (initial_service\<lparr>maxBackups := 1\<rparr>)
        \<lparr>localStorage = Map.empty,
         backups = [\<lparr>id' = ''backup_1000'', content = ''{files:[]}'', timestamp = 1001,
                     version = 1, checksum = ''fd0a''\<rparr>],
         files = Map.empty, intervals = {}, next_handle = 1\<rparr>
       = (Inr (),
          initial_service\<lparr>maxBackups := 1,
            recoveryState := (recoveryState initial_service)\<lparr>backupCount := 1\<rparr>\<rparr>,
          \<lparr>localStorage = [''codebuddy_recovery_state'' \<mapsto> ''null''],
           backups = [\<lparr>id' = ''backup_1000'', content = ''{files:[]}'', timestamp = 1001,
                       version = 1, checksum = ''fd0a''\<rparr>],
           files = Map.empty, intervals = {}, next_handle = 1\<rparr>)"
proof -
  have wf: "wf_store example_ten_snapshots"
    by (simp add: wf_store_def example_ten_snapshots_def)
  have cnt: "backupCount (recoveryState initial_service) = 0"
    by (simp add: initial_service_def)
  have o1: "createBackup_object example_platform 3000 3000 example_data initial_service =
       Inr \<lparr>id' = ''backup_3000'', content = ''{files:[]}'', timestamp = 3000, version = 1,
            checksum = ''fd0a''\<rparr>"
    unfolding example_object toString_radix_3000 cnt by simp
  have c1: "createBackup example_platform no_faults 3000 3000 example_data initial_service
        \<lparr>localStorage = Map.empty, backups = example_ten_snapshots, files = Map.empty,
         intervals = {}, next_handle = 1\<rparr>
       = (Inr (),
          initial_service\<lparr>recoveryState := (recoveryState initial_service)\<lparr>backupCount := 1\<rparr>\<rparr>,
          \<lparr>localStorage = [''codebuddy_recovery_state'' \<mapsto> ''null''],
           backups = example_ten_snapshots, files = Map.empty, intervals = {},
           next_handle = 1\<rparr>)"
    using example_clock_set_back
      [of "\<lparr>localStorage = Map.empty, backups = example_ten_snapshots, files = Map.empty,
            intervals = {}, next_handle = 1\<rparr>"]
    by (simp add: cnt)
  have n1: "\<lparr>id' = ''backup_3000'', content = ''{files:[]}'', timestamp = 3000, version = 1,
        checksum = ''fd0a''\<rparr> \<notin> set example_ten_snapshots"
    by (simp add: example_ten_snapshots_def)
  have cnt1: "backupCount (recoveryState (initial_service\<lparr>maxBackups := 1\<rparr>)) = 0"
    by (simp add: initial_service_def)
  have o2: "createBackup_object example_platform 1001 1001 example_data
        (initial_service\<lparr>maxBackups := 1\<rparr>) =
       Inr \<lparr>id' = ''backup_1001'', content = ''{files:[]}'', timestamp = 1001, version = 1,
            checksum = ''fd0a''\<rparr>"
    unfolding example_object toString_radix_1001 cnt1 by simp
  have c2: "createBackup example_platform no_faults 1001 1001 example_data
        (initial_service\<lparr>maxBackups := 1\<rparr>)
        \<lparr>localStorage = Map.empty,
         backups = [\<lparr>id' = ''backup_1000'', content = ''{files:[]}'', timestamp = 1001,
                     version = 1, checksum = ''fd0a''\<rparr>],
         files = Map.empty, intervals = {}, next_handle = 1\<rparr>
       = (Inr (),
          initial_service\<lparr>maxBackups := 1,
            recoveryState := (recoveryState initial_service)\<lparr>backupCount := 1\<rparr>\<rparr>,
          \<lparr>localStorage = [''codebuddy_recovery_state'' \<mapsto> ''null''],
           backups = [\<lparr>id' = ''backup_1000'', content = ''{files:[]}'', timestamp = 1001,
                       version = 1, checksum = ''fd0a''\<rparr>],
           files = Map.empty, intervals = {}, next_handle = 1\<rparr>)"
    using example_same_timestamp
      [of "\<lparr>localStorage = Map.empty,
         backups = [\<lparr>id' = ''backup_1000'', content = ''{files:[]}'', timestamp = 1001,
                     version = 1, checksum = ''fd0a''\<rparr>],
         files = Map.empty, intervals = {}, next_handle = 1\<rparr>"]
    by (simp add: cnt)
  from wf o1 c1 n1 o2 c2 show ?thesis
    by (intro conjI)
qed

subsection \<open>The auto-backup timer\<close>

lemma delete_each_timers:
  "intervals (snd (delete_each F del br)) = intervals br
   \<and> next_handle (snd (delete_each F del br)) = next_handle br"
proof (induction del arbitrary: br)
  case Nil
  show ?case by simp
next
  case (Cons d del)
  show ?case
  proof (cases "F (BackupsDelete (id' d))")
    case None
    let ?br1 = "br\<lparr>backups := filter (\<lambda>x. id' x \<noteq> id' d) (backups br)\<rparr>"
    from None have "snd (delete_each F (d # del) br) = snd (delete_each F del ?br1)"
      by (simp add: deleteBackup_def)
    with Cons.IH [of ?br1] show ?thesis by simp
  next
    case (Some e)
    then show ?thesis by (simp add: deleteBackup_def)
  qed
qed

lemma cleanOldBackups_timers:
  "intervals (cleanOldBackups F svc br) = intervals br
   \<and> next_handle (cleanOldBackups F svc br) = next_handle br"
  by (simp add: cleanOldBackups_def getBackups_def Let_def delete_each_timers
      split: option.splits)

lemma createBackup_timers:
  assumes "createBackup P F t1 t2 data svc br = (r, svc1, br1)"
  shows "backupTimer svc1 = backupTimer svc \<and> intervals br1 = intervals br
         \<and> next_handle br1 = next_handle br"
  using assms
  by (auto simp: createBackup_def storeBackup_def updateRecoveryState_def setItem_def Let_def
      cleanOldBackups_timers split: sum.splits option.splits prod.splits)

lemma interval_fires_timers:
  assumes "interval_fires h P F t1 t2 t3 data svc br = (svc1, br1)"
  shows "backupTimer svc1 = backupTimer svc \<and> intervals br1 = intervals br
         \<and> next_handle br1 = next_handle br"
proof (cases "h \<in> intervals br")
  case False
  with assms show ?thesis by (simp add: interval_fires_def)
next
  case True
  obtain r svc2 br2 where cb: "createBackup P F t1 t2 data svc br = (r, svc2, br2)"
    by (cases "createBackup P F t1 t2 data svc br") auto
  from True assms cb have "backupTimer svc1 = backupTimer svc2 \<and> br1 = br2"
    by (cases r) (auto simp: interval_fires_def autoBackup_callback_def)
  with createBackup_timers [OF cb] show ?thesis by simp
qed

lemma stopAutoBackup_inv:
  assumes "timer_inv others svc br"
  shows "timer_inv others (fst (stopAutoBackup svc br)) (snd (stopAutoBackup svc br))
         \<and> backupTimer (fst (stopAutoBackup svc br)) = None
         \<and> intervals (snd (stopAutoBackup svc br)) = others
         \<and> next_handle (snd (stopAutoBackup svc br)) = next_handle br"
  using assms
  by (cases "backupTimer svc") (auto simp: stopAutoBackup_def timer_inv_def handles_fresh_def)

lemma startAutoBackup_inv:
  assumes "timer_inv others svc br"
  shows "timer_inv others (fst (startAutoBackup svc br)) (snd (startAutoBackup svc br))
         \<and> backupTimer (fst (startAutoBackup svc br)) = Some (next_handle br)
         \<and> intervals (snd (startAutoBackup svc br)) = insert (next_handle br) others
         \<and> next_handle br \<notin> intervals br"
proof -
  obtain svc1 br1 where st: "stopAutoBackup svc br = (svc1, br1)"
    by (cases "stopAutoBackup svc br") auto
  from stopAutoBackup_inv [OF assms] st have
    inv1: "timer_inv others svc1 br1" and none: "backupTimer svc1 = None" and
    iv: "intervals br1 = others" and nh: "next_handle br1 = next_handle br"
    by simp_all
  from assms have fresh: "0 < next_handle br" "\<forall>h\<in>intervals br. h < next_handle br"
    by (simp_all add: timer_inv_def handles_fresh_def)
  from assms have sub: "others \<subseteq> intervals br"
    by (auto simp: timer_inv_def)
  from fresh sub have notin: "next_handle br \<notin> others" "next_handle br \<notin> intervals br"
    by auto
  have res: "startAutoBackup svc br =
               (svc1\<lparr>backupTimer := Some (next_handle br)\<rparr>,
                br1\<lparr>intervals := insert (next_handle br) others,
                    next_handle := Suc (next_handle br)\<rparr>)"
    by (simp add: startAutoBackup_def st Let_def iv nh)
  have "timer_inv others (svc1\<lparr>backupTimer := Some (next_handle br)\<rparr>)
          (br1\<lparr>intervals := insert (next_handle br) others, next_handle := Suc (next_handle br)\<rparr>)"
  proof -
    have "h < Suc (next_handle br)" if "h \<in> others" for h
      using that fresh(2) sub by (auto simp: less_Suc_eq)
    with fresh(1) notin show ?thesis
      by (auto simp: timer_inv_def handles_fresh_def)
  qed
  with res notin show ?thesis by simp
qed

lemma timer_step_inv:
  assumes "timer_inv others svc br"
  shows "timer_inv others (fst (timer_step c (svc, br))) (snd (timer_step c (svc, br)))"
proof (cases c)
  case Start
  with startAutoBackup_inv [OF assms] show ?thesis by simp
next
  case Stop
  with stopAutoBackup_inv [OF assms] show ?thesis by simp
next
  case (Fire h P F t1 t2 t3 data)
  obtain svc1 br1 where f: "interval_fires h P F t1 t2 t3 data svc br = (svc1, br1)"
    by (cases "interval_fires h P F t1 t2 t3 data svc br") auto
  from interval_fires_timers [OF f] assms have "timer_inv others svc1 br1"
    by (simp add: timer_inv_def handles_fresh_def)
  with Fire f show ?thesis by simp
qed

lemma run_timer_calls_inv:
  assumes "timer_inv others svc br"
  shows "timer_inv others (fst (run_timer_calls calls (svc, br)))
           (snd (run_timer_calls calls (svc, br)))"
  using assms
proof (induction calls arbitrary: svc br)
  case Nil
  then show ?case by (simp add: run_timer_calls_def)
next
  case (Cons c calls)
  obtain svc1 br1 where s: "timer_step c (svc, br) = (svc1, br1)"
    by (cases "timer_step c (svc, br)") auto
  from timer_step_inv [OF Cons.prems, of c] s have "timer_inv others svc1 br1"
    by simp
  from Cons.IH [OF this] s show ?case
    by (simp add: run_timer_calls_def)
qed

text \<open>
  Claim C9. Start from a service with no timer, in a browser whose handles are fresh,
  and let calls of \<^verbatim>\<open>startAutoBackup\<close> and \<^verbatim>\<open>stopAutoBackup\<close> and firings of
  intervals follow in any order. Then the running timers are those that ran before and
  the one whose handle is in \<^verbatim>\<open>backupTimer\<close>: the service has at most one. A further
  \<^verbatim>\<open>startAutoBackup\<close> leaves one timer of the service, the new one, whose handle was
  not running before; a \<^verbatim>\<open>stopAutoBackup\<close> leaves none, and afterwards the firing of
  a handle that is not another party's changes nothing.
\<close>

theorem autoBackup_single_timer:
  assumes "backupTimer svc0 = None" and "handles_fresh br0"
    and "run_timer_calls calls (svc0, br0) = (svc, br)"
  shows "intervals br = intervals br0 \<union> set_option (backupTimer svc)
         \<and> card (intervals br - intervals br0) \<le> 1
         \<and> backupTimer (fst (startAutoBackup svc br)) = Some (next_handle br)
         \<and> next_handle br \<notin> intervals br
         \<and> intervals (snd (startAutoBackup svc br)) = insert (next_handle br) (intervals br0)
         \<and> backupTimer (fst (stopAutoBackup svc br)) = None
         \<and> intervals (snd (stopAutoBackup svc br)) = intervals br0
         \<and> (\<forall>h P F t1 t2 t3 data. h \<notin> intervals br0 \<longrightarrow>
              interval_fires h P F t1 t2 t3 data
                (fst (stopAutoBackup svc br)) (snd (stopAutoBackup svc br))
              = stopAutoBackup svc br)"
proof -
  have "timer_inv (intervals br0) svc0 br0"
    using assms(1,2) by (simp add: timer_inv_def)
  from run_timer_calls_inv [OF this, of calls] assms(3)
  have inv: "timer_inv (intervals br0) svc br"
    by simp
  then have iv: "intervals br = intervals br0 \<union> set_option (backupTimer svc)"
    and own: "\<forall>h\<in>set_option (backupTimer svc). h \<notin> intervals br0"
    by (simp_all add: timer_inv_def)
  from iv own have df: "intervals br - intervals br0 = set_option (backupTimer svc)"
    by auto
  have cd: "card (intervals br - intervals br0) \<le> 1"
    unfolding df by (cases "backupTimer svc") simp_all
  note start = startAutoBackup_inv [OF inv]
  note stop = stopAutoBackup_inv [OF inv]
  have fire: "interval_fires h P F t1 t2 t3 data
                (fst (stopAutoBackup svc br)) (snd (stopAutoBackup svc br))
              = stopAutoBackup svc br"
    if "h \<notin> intervals br0" for h P F t1 t2 t3 data
    using that stop by (simp add: interval_fires_def)
  from iv cd start stop fire show ?thesis
    by blast
qed

lemma example_two_starts:
  "run_timer_calls [Start, Start] (initial_service, empty_browser) =
     (initial_service\<lparr>backupTimer := Some 2\<rparr>,
      empty_browser\<lparr>intervals := {2}, next_handle := 3\<rparr>)"
  by (simp add: run_timer_calls_def startAutoBackup_def stopAutoBackup_def initial_service_def
      empty_browser_def Let_def numeral_3_eq_3 numeral_2_eq_2)

text \<open>
  Two starts in a row on an empty browser leave the second timer only; a stop then
  leaves none.
\<close>

theorem autoBackup_single_timer_witness:
  "intervals (snd (run_timer_calls [Start, Start] (initial_service, empty_browser))) = {2}
   \<and> intervals
        (snd (stopAutoBackup (initial_service\<lparr>backupTimer := Some 2\<rparr>)
                (empty_browser\<lparr>intervals := {2}, next_handle := 3\<rparr>))) = {}"
proof -
  have n: "backupTimer initial_service = None"
    by (simp add: initial_service_def)
  have f: "handles_fresh empty_browser"
    by (simp add: handles_fresh_def empty_browser_def)
  note single = autoBackup_single_timer [OF n f example_two_starts]
  have e: "intervals empty_browser = {}"
    by (simp add: empty_browser_def)
  from single have "intervals (empty_browser\<lparr>intervals := {2}, next_handle := 3\<rparr>) =
                      intervals empty_browser \<union> set_option (backupTimer (initial_service\<lparr>backupTimer := Some 2\<rparr>))"
    by (rule conjunct1)
  then have 1: "intervals (snd (run_timer_calls [Start, Start] (initial_service, empty_browser))) = {2}"
    unfolding example_two_starts by simp
  from single have "intervals
        (snd (stopAutoBackup (initial_service\<lparr>backupTimer := Some 2\<rparr>)
                (empty_browser\<lparr>intervals := {2}, next_handle := 3\<rparr>))) = intervals empty_browser"
    by (elim conjE)
  then have 2: "intervals
        (snd (stopAutoBackup (initial_service\<lparr>backupTimer := Some 2\<rparr>)
                (empty_browser\<lparr>intervals := {2}, next_handle := 3\<rparr>))) = {}"
    unfolding e .
  from 1 2 show ?thesis by (rule conjI)
qed

end
